theory Spec2Isabelle
  imports Complex_Main
begin

section \<open>Python values used by \<^verbatim>\<open>lib/gui/utils.py\<close>\<close>

text \<open>
  The exception classes that the handlers of the module tell apart. \<open>KeyboardInterrupt\<close>
  stands for the exceptions that derive from \<open>BaseException\<close> only; every other
  constructor derives from \<open>Exception\<close>. \<open>PermissionError\<close> and
  \<open>FileNotFoundError\<close> derive from \<open>OSError\<close>.
\<close>

datatype exn =
    AssertionError
  | FileNotFoundError
  | PermissionError
  | OSError
  | ValueError
  | KeyError
  | ZeroDivisionError
  | SyntaxError
  | KeyboardInterrupt

definition isinstance_PermissionError :: "exn \<Rightarrow> bool" where
  "isinstance_PermissionError e = (e = PermissionError)"

definition isinstance_OSError :: "exn \<Rightarrow> bool" where
  "isinstance_OSError e = (e = OSError \<or> e = PermissionError \<or> e = FileNotFoundError)"

definition isinstance_Exception :: "exn \<Rightarrow> bool" where
  "isinstance_Exception e = (e \<noteq> KeyboardInterrupt)"


type_synonym path = string

text \<open>\<^verbatim>\<open>str.lower\<close> and \<^verbatim>\<open>str.endswith\<close> on ASCII text.\<close>

definition lower_char :: "char \<Rightarrow> char" where
  "lower_char c =
     (let n = (of_char c :: nat)
      in if 65 \<le> n \<and> n \<le> 90 then char_of (n + 32) else c)"

definition lower :: "string \<Rightarrow> string" where
  "lower s = map lower_char s"

definition endswith :: "string \<Rightarrow> string \<Rightarrow> bool" where
  "endswith s suf =
     (length suf \<le> length s \<and> drop (length s - length suf) s = suf)"

text \<open>\<^verbatim>\<open>os.path.join\<close> of two components (POSIX rules).\<close>

definition path_join :: "path \<Rightarrow> string \<Rightarrow> path" where
  "path_join a b =
     (if b \<noteq> [] \<and> hd b = CHR ''/'' then b
      else if a = [] \<or> last a = CHR ''/'' then a @ b
      else a @ ''/'' @ b)"

text \<open>
  A slice \<^verbatim>\<open>xs[-n:]\<close>: the last \<open>n\<close> elements for a positive \<open>n\<close>, the whole
  list for \<open>n = 0\<close> (the slice is then \<^verbatim>\<open>xs[0:]\<close>), and the list without its first
  \<open>-n\<close> elements for a negative \<open>n\<close>.
\<close>

definition slice_last :: "int \<Rightarrow> 'a list \<Rightarrow> 'a list" where
  "slice_last n xs =
     (if 0 < n then drop (length xs - nat n) xs
      else if n = 0 then xs
      else drop (nat (- n)) xs)"

text \<open>\<^verbatim>\<open>max\<close> over a sequence; the empty sequence raises \<open>ValueError\<close>.\<close>

definition py_max :: "real list \<Rightarrow> exn + real" where
  "py_max ts = (case ts of [] \<Rightarrow> Inl ValueError | t # rest \<Rightarrow> Inr (fold max rest t))"

section \<open>The file system and the image library\<close>

text \<open>
  A thumbnail is the pixel array that \<^verbatim>\<open>np.array(image)\<close> gives: a list of rows, each a
  list of pixels, a pixel being its packed RGB value (zero exactly when the three
  channels are zero).
\<close>

type_synonym thumbnail = "nat list list"

text \<open>
  What opening, scaling and bordering one file does in \<^verbatim>\<open>_load_images_to_cache\<close>:
  \<^verbatim>\<open>Image.open\<close> raises, or \<^verbatim>\<open>img.resize\<close> raises, or a statement outside both
  \<^verbatim>\<open>try\<close> blocks raises (the scaling division, \<^verbatim>\<open>_pad_and_border\<close>), or the
  thumbnail comes out.
\<close>

datatype load_result =
    OpenFails exn
  | ResizeFails exn
  | OtherFails exn
  | Loaded thumbnail

text \<open>
  The state of the disk as the module sees it: \<open>dirs\<close> gives the entries of every
  directory (\<^verbatim>\<open>os.path.isdir\<close>, \<^verbatim>\<open>os.listdir\<close>), \<open>stat\<close> the modification
  and creation time of every existing path (\<^verbatim>\<open>os.path.getmtime\<close>,
  \<^verbatim>\<open>os.path.getctime\<close>), and \<open>decode\<close> what the image library makes of a file at
  a thumbnail size. Time stamps are floats that the module only compares, so they are
  reals here.
\<close>

record filesystem =
  dirs :: "path \<rightharpoonup> string list"
  stat :: "path \<rightharpoonup> real \<times> real"
  decode :: "path \<Rightarrow> int \<Rightarrow> load_result"

definition isdir :: "filesystem \<Rightarrow> path \<Rightarrow> bool" where
  "isdir fs p = (dirs fs p \<noteq> None)"

definition listdir :: "filesystem \<Rightarrow> path \<Rightarrow> exn + string list" where
  "listdir fs p = (case dirs fs p of None \<Rightarrow> Inl FileNotFoundError | Some names \<Rightarrow> Inr names)"

definition getmtime :: "filesystem \<Rightarrow> path \<Rightarrow> exn + real" where
  "getmtime fs p = (case stat fs p of None \<Rightarrow> Inl FileNotFoundError | Some t \<Rightarrow> Inr (fst t))"

definition getctime :: "filesystem \<Rightarrow> path \<Rightarrow> exn + real" where
  "getctime fs p = (case stat fs p of None \<Rightarrow> Inl FileNotFoundError | Some t \<Rightarrow> Inr (snd t))"

text \<open>
  \<^verbatim>\<open>os.remove\<close>: the path loses its time stamps and its entry in every listing
  that names it; a path that does not exist raises.
\<close>

definition remove_file :: "filesystem \<Rightarrow> path \<Rightarrow> exn + filesystem" where
  "remove_file fs p =
     (if stat fs p = None then Inl FileNotFoundError
      else Inr (fs\<lparr>dirs := (\<lambda>d. map_option (filter (\<lambda>f. path_join d f \<noteq> p)) (dirs fs d)),
                   stat := (stat fs)(p := None)\<rparr>))"

text \<open>A function applied along a list, stopping at the first exception.\<close>

fun map_raise :: "('a \<Rightarrow> exn + 'b) \<Rightarrow> 'a list \<Rightarrow> exn + 'b list" where
  "map_raise f [] = Inr []"
| "map_raise f (x # xs) =
     (case f x of
        Inl e \<Rightarrow> Inl e
      | Inr y \<Rightarrow> (case map_raise f xs of Inl e \<Rightarrow> Inl e | Inr ys \<Rightarrow> Inr (y # ys)))"

section \<open>The preview cache of \<^verbatim>\<open>Images\<close>\<close>

text \<open>
  \<^verbatim>\<open>self._previewcache\<close>: the watermark \<open>modified\<close>, the stacked thumbnails
  \<open>images\<close> (\<open>None\<close> until the first batch), their file names and the placeholder.
\<close>

record preview_cache =
  modified :: "real option"
  images :: "thumbnail list option"
  filenames :: "path list"
  placeholder :: "thumbnail option"

text \<open>\<^verbatim>\<open>Images._get_images\<close>\<close>

definition get_images :: "filesystem \<Rightarrow> path \<Rightarrow> path list" where
  "get_images fs image_path =
     (case dirs fs image_path of
        None \<Rightarrow> []
      | Some names \<Rightarrow>
          map (path_join image_path)
            (filter (\<lambda>f. endswith (lower f) ''.png'' \<or> endswith (lower f) ''.jpg'') names))"

text \<open>
  The comprehension of \<^verbatim>\<open>_get_newest_filenames\<close>: the files modified after the
  watermark, in the order given.
\<close>

fun modified_since :: "filesystem \<Rightarrow> real \<Rightarrow> path list \<Rightarrow> exn + path list" where
  "modified_since fs m [] = Inr []"
| "modified_since fs m (fname # rest) =
     (case getmtime fs fname of
        Inl e \<Rightarrow> Inl e
      | Inr t \<Rightarrow>
          (case modified_since fs m rest of
             Inl e \<Rightarrow> Inl e
           | Inr newer \<Rightarrow> Inr (if t > m then fname # newer else newer)))"

text \<open>
  \<^verbatim>\<open>Images._get_newest_filenames\<close>. An exception leaves the cache as it was, since
  both calls of \<^verbatim>\<open>os.path.getmtime\<close> come before the assignment.
\<close>

definition get_newest_filenames ::
  "filesystem \<Rightarrow> preview_cache \<Rightarrow> path list \<Rightarrow> exn + (path list \<times> preview_cache)" where
  "get_newest_filenames fs cache image_files =
     (case (case modified cache of
              None \<Rightarrow> Inr image_files
            | Some m \<Rightarrow> modified_since fs m image_files) of
        Inl e \<Rightarrow> Inl e
      | Inr retval \<Rightarrow>
          if retval = [] then Inr (retval, cache)
          else (case map_raise (getmtime fs) retval of
                  Inl e \<Rightarrow> Inl e
                | Inr ts \<Rightarrow>
                    (case py_max ts of
                       Inl e \<Rightarrow> Inl e
                     | Inr t \<Rightarrow> Inr (retval, cache\<lparr>modified := Some t\<rparr>))))"

text \<open>
  \<^verbatim>\<open>sorted(image_files, key=os.path.getctime)\<close>: a stable sort; a file without a
  creation time raises.
\<close>

definition sorted_by_ctime :: "filesystem \<Rightarrow> path list \<Rightarrow> exn + path list" where
  "sorted_by_ctime fs image_files =
     (case map_raise (getctime fs) image_files of
        Inl e \<Rightarrow> Inl e
      | Inr _ \<Rightarrow>
          Inr (sort_key (\<lambda>p. case stat fs p of None \<Rightarrow> 0 | Some t \<Rightarrow> snd t) image_files))"

text \<open>
  The loop of \<^verbatim>\<open>_load_images_to_cache\<close> over \<open>show_files\<close>, with its two
  accumulators \<open>samples\<close> and \<open>dropped_files\<close>. The handlers of \<^verbatim>\<open>Image.open\<close>
  are \<^verbatim>\<open>except PermissionError\<close> and \<^verbatim>\<open>except Exception\<close>, the handler of
  \<^verbatim>\<open>img.resize\<close> is \<^verbatim>\<open>except OSError\<close>; each appends the file to
  \<open>dropped_files\<close> and continues.
\<close>

fun load_samples ::
  "filesystem \<Rightarrow> int \<Rightarrow> path list \<Rightarrow> thumbnail list \<Rightarrow> path list \<Rightarrow>
   exn + (thumbnail list \<times> path list)" where
  "load_samples fs thumbnail_size [] samples dropped_files = Inr (samples, dropped_files)"
| "load_samples fs thumbnail_size (fname # rest) samples dropped_files =
     (case decode fs fname thumbnail_size of
        OpenFails e \<Rightarrow>
          if isinstance_PermissionError e
          then load_samples fs thumbnail_size rest samples (dropped_files @ [fname])
          else if isinstance_Exception e
          then load_samples fs thumbnail_size rest samples (dropped_files @ [fname])
          else Inl e
      | ResizeFails e \<Rightarrow>
          if isinstance_OSError e
          then load_samples fs thumbnail_size rest samples (dropped_files @ [fname])
          else Inl e
      | OtherFails e \<Rightarrow> Inl e
      | Loaded thumb \<Rightarrow>
          load_samples fs thumbnail_size rest (samples @ [thumb]) dropped_files)"

text \<open>\<^verbatim>\<open>np.any\<close> of the stacked samples: some pixel of some sample is not zero.\<close>

definition np_any :: "thumbnail list \<Rightarrow> bool" where
  "np_any samples = (\<exists>s\<in>set samples. \<exists>row\<in>set s. \<exists>p\<in>set row. p \<noteq> 0)"

text \<open>
  The shape of a pixel array: its number of rows and the length of a row.
\<close>

definition width :: "thumbnail \<Rightarrow> nat" where
  "width t = (case t of [] \<Rightarrow> 0 | row # _ \<Rightarrow> length row)"

definition shape :: "thumbnail \<Rightarrow> nat \<times> nat" where
  "shape thumb = (length thumb, width thumb)"

text \<open>
  \<^verbatim>\<open>np.array(samples)\<close>: the samples stacked into one array; samples of different
  shapes raise \<open>ValueError\<close>.
\<close>

definition np_array :: "thumbnail list \<Rightarrow> exn + thumbnail list" where
  "np_array samples =
     (case samples of
        [] \<Rightarrow> Inr []
      | s # rest \<Rightarrow>
          if \<forall>u\<in>set rest. shape u = shape s then Inr samples else Inl ValueError)"

text \<open>
  \<^verbatim>\<open>np.concatenate((cache, asamples))\<close> along the first axis, for the stored array
  and the array that \<^verbatim>\<open>np.array\<close> made of a list of samples: the thumbnails of both
  must have one shape, otherwise \<open>ValueError\<close> is raised; the array of an empty list
  has one dimension only and cannot be stacked onto thumbnails. (A stored array
  without thumbnails, which only a negative \<open>num_images\<close> leaves behind, is a list that
  has lost its shape; the concatenation then passes.)
\<close>

definition np_concatenate :: "thumbnail list \<Rightarrow> thumbnail list \<Rightarrow> exn + thumbnail list" where
  "np_concatenate stored asamples =
     (case stored of
        [] \<Rightarrow> Inr asamples
      | c # _ \<Rightarrow>
          (case asamples of
             [] \<Rightarrow> Inl ValueError
           | s # _ \<Rightarrow>
               if shape c = shape s then Inr (stored @ asamples) else Inl ValueError))"

text \<open>
  \<^verbatim>\<open>Images._process_samples\<close>. The result is \<open>Inr\<close> of the value returned, or
  \<open>Inl\<close> of the exception raised, each with the cache as the method leaves it:
  \<^verbatim>\<open>np.array\<close> raises before anything is written, \<^verbatim>\<open>np.concatenate\<close> after the
  file names have been stored.
\<close>

definition process_samples ::
  "preview_cache \<Rightarrow> thumbnail list \<Rightarrow> path list \<Rightarrow> int \<Rightarrow>
   (exn \<times> preview_cache) + (bool \<times> preview_cache)" where
  "process_samples cache samples fnames num_images =
     (case np_array samples of
        Inl e \<Rightarrow> Inl (e, cache)
      | Inr asamples \<Rightarrow>
          if \<not> np_any asamples then Inr (False, cache)
          else
            let cache = cache\<lparr>filenames := slice_last num_images (filenames cache @ fnames)\<rparr>
            in (case images cache of
                  None \<Rightarrow> Inr (True, cache\<lparr>images := Some (slice_last num_images asamples)\<rparr>)
                | Some stored \<Rightarrow>
                    (case np_concatenate stored asamples of
                       Inl e \<Rightarrow> Inl (e, cache)
                     | Inr stacked \<Rightarrow>
                         Inr (True, cache\<lparr>images := Some (slice_last num_images stacked)\<rparr>))))"

text \<open>
  The number of thumbnails that fit the display panel, as \<^verbatim>\<open>_load_images_to_cache\<close>
  computes it for a \<open>thumbnail_size\<close> other than zero.
\<close>

definition num_images :: "int \<times> int \<Rightarrow> int \<Rightarrow> int" where
  "num_images frame_dims thumbnail_size =
     (fst frame_dims div thumbnail_size) * (snd frame_dims div thumbnail_size)"

text \<open>
  \<^verbatim>\<open>Images._load_images_to_cache\<close>, with the result of \<^verbatim>\<open>_process_samples\<close>.
  The floor division raises on a zero \<open>thumbnail_size\<close>; nothing is written to the
  cache before \<^verbatim>\<open>_process_samples\<close>, so an earlier exception leaves it as it was.
\<close>

definition load_images_to_cache ::
  "filesystem \<Rightarrow> preview_cache \<Rightarrow> path list \<Rightarrow> int \<times> int \<Rightarrow> int \<Rightarrow>
   (exn \<times> preview_cache) + (bool \<times> preview_cache)" where
  "load_images_to_cache fs cache image_files frame_dims thumbnail_size =
     (if thumbnail_size = 0 then Inl (ZeroDivisionError, cache)
      else
        let n = num_images frame_dims thumbnail_size
        in if n = 0 then Inr (False, cache)
           else
             let start_idx = (if int (length image_files) > n
                              then int (length image_files) - n else 0)
             in (case sorted_by_ctime fs image_files of
                   Inl e \<Rightarrow> Inl (e, cache)
                 | Inr by_ctime \<Rightarrow>
                     let show_files = drop (nat start_idx) by_ctime
                     in (case load_samples fs thumbnail_size show_files [] [] of
                           Inl e \<Rightarrow> Inl (e, cache)
                         | Inr (samples, dropped_files) \<Rightarrow>
                             process_samples cache samples
                               (filter (\<lambda>fname. fname \<notin> set dropped_files) show_files)
                               n)))"

text \<open>
  \<^verbatim>\<open>Images._create_placeholder\<close>: a black square with the outline of the rectangle
  from \<open>(0, 0)\<close> to \<open>(size, size)\<close> in \<^verbatim>\<open>#E5E5E5\<close>; its right and bottom edges
  fall outside the image, so the top row and the left column are drawn.
\<close>

definition create_placeholder :: "int \<Rightarrow> thumbnail" where
  "create_placeholder thumbnail_size =
     map (\<lambda>y. map (\<lambda>x. if x = 0 \<or> y = 0 then (15066597::nat) else 0)
                 [0..<nat thumbnail_size])
         [0..<nat thumbnail_size]"

text \<open>
  \<^verbatim>\<open>np.hstack\<close> and \<^verbatim>\<open>np.vstack\<close> on pixel arrays: tiles side by side, strips
  one under the other. No array, or arrays whose other dimension differs, raise
  \<open>ValueError\<close>.
\<close>

definition hstack :: "thumbnail list \<Rightarrow> exn + thumbnail" where
  "hstack tiles =
     (case tiles of
        [] \<Rightarrow> Inl ValueError
      | t # rest \<Rightarrow>
          if \<forall>u\<in>set rest. length u = length t
          then Inr (map (\<lambda>y. concat (map (\<lambda>u. u ! y) tiles)) [0..<length t])
          else Inl ValueError)"

definition vstack :: "thumbnail list \<Rightarrow> exn + thumbnail" where
  "vstack strips =
     (case strips of
        [] \<Rightarrow> Inl ValueError
      | s # rest \<Rightarrow>
          if \<forall>u\<in>set rest. width u = width s
          then Inr (concat strips)
          else Inl ValueError)"

text \<open>A slice \<^verbatim>\<open>xs[lo:hi]\<close> with \<open>0 \<le> lo\<close> and \<open>0 \<le> hi\<close>.\<close>

definition slice :: "nat \<Rightarrow> nat \<Rightarrow> 'a list \<Rightarrow> 'a list" where
  "slice lo hi xs = drop lo (take hi xs)"

text \<open>
  \<^verbatim>\<open>Images._place_previews\<close>. Unpacking the shape of an empty array raises
  \<open>ValueError\<close>, the floor division by a zero thumbnail size raises
  \<open>ZeroDivisionError\<close>, and concatenating the empty list of placeholders that a
  negative remainder gives raises \<open>ValueError\<close>. The placeholder is stored before
  any of these, so the cache is returned in every case.
\<close>

definition place_previews ::
  "preview_cache \<Rightarrow> int \<times> int \<Rightarrow> (exn + thumbnail option) \<times> preview_cache" where
  "place_previews cache frame_dims =
     (case images cache of
        None \<Rightarrow> (Inr None, cache)
      | Some samples \<Rightarrow>
          (case samples of
             [] \<Rightarrow> (Inl ValueError, cache)
           | first # _ \<Rightarrow>
               let num_images = int (length samples);
                   thumbnail_size = int (length first);
                   blank = (case placeholder cache of
                              None \<Rightarrow> create_placeholder thumbnail_size
                            | Some p \<Rightarrow> p);
                   cache = cache\<lparr>placeholder := Some blank\<rparr>
               in if thumbnail_size = 0 then (Inl ZeroDivisionError, cache)
                  else
                    let cols = fst frame_dims div thumbnail_size;
                        rows = snd frame_dims div thumbnail_size
                    in if cols = 0 \<or> rows = 0 then (Inr None, cache)
                       else
                         let remainder = cols * rows - num_images
                         in if remainder < 0 then (Inl ValueError, cache)
                            else
                              let samples = (if remainder \<noteq> 0
                                             then samples @ replicate (nat remainder) blank
                                             else samples)
                              in (case map_raise
                                         (\<lambda>row. hstack (slice (row * nat cols)
                                                            ((row + 1) * nat cols) samples))
                                         [0..<nat rows] of
                                    Inl e \<Rightarrow> (Inl e, cache)
                                  | Inr strips \<Rightarrow>
                                      (case vstack strips of
                                         Inl e \<Rightarrow> (Inl e, cache)
                                       | Inr display \<Rightarrow> (Inr (Some display), cache)))))"

section \<open>The \<^verbatim>\<open>Images\<close> object\<close>

text \<open>
  The training previews hold, for each name, the opened image, its copy for display
  (\<open>None\<close> until \<^verbatim>\<open>resize_image\<close> stores it) and a modification time. An opened
  image and a display copy are known by their width and height.
\<close>

type_synonym pil_image = "int \<times> int"
type_synonym photo_image = "int \<times> int"
type_synonym train_entry = "pil_image \<times> photo_image option \<times> real"

record gui_images =
  pathpreview :: path
  pathoutput :: "path option"
  batch_mode :: bool
  previewoutput :: "thumbnail option"
  previewtrain :: "string \<rightharpoonup> train_entry"
  previewcache :: preview_cache
  errcount :: int

text \<open>\<^verbatim>\<open>Images._get_newest_folder\<close>\<close>

definition get_newest_folder :: "filesystem \<Rightarrow> path \<Rightarrow> exn + path" where
  "get_newest_folder fs pathout =
     (case listdir fs pathout of
        Inl e \<Rightarrow> Inl e
      | Inr names \<Rightarrow>
          let folders = filter (isdir fs) (map (path_join pathout) names)
          in (case map_raise (getmtime fs) folders of
                Inl e \<Rightarrow> Inl e
              | Inr _ \<Rightarrow>
                  let folders = sort_key (\<lambda>p. case stat fs p of None \<Rightarrow> 0 | Some t \<Rightarrow> fst t)
                                  folders
                  in Inr (if folders \<noteq> [] then last folders else pathout)))"

text \<open>
  The end of \<^verbatim>\<open>load_latest_preview\<close>, once \<^verbatim>\<open>_load_images_to_cache\<close> has
  returned \<open>True\<close>: the single preview file is removed, the grid is composed and
  stored in \<open>previewoutput\<close>.
\<close>

definition display_previews ::
  "gui_images \<Rightarrow> filesystem \<Rightarrow> path \<Rightarrow> path list \<Rightarrow> int \<times> int \<Rightarrow>
   exn option \<times> gui_images \<times> filesystem" where
  "display_previews self fs gui_preview image_files frame_dims =
     (case (if image_files = [gui_preview] then remove_file fs (hd image_files) else Inr fs) of
        Inl e \<Rightarrow> (Some e, self, fs)
      | Inr fs \<Rightarrow>
          (case place_previews (previewcache self) frame_dims of
             (Inl e, cache) \<Rightarrow> (Some e, self\<lparr>previewcache := cache\<rparr>, fs)
           | (Inr None, cache) \<Rightarrow>
               (None, self\<lparr>previewcache := cache, previewoutput := None\<rparr>, fs)
           | (Inr (Some show_image), cache) \<Rightarrow>
               (None, self\<lparr>previewcache := cache, previewoutput := Some show_image\<rparr>, fs)))"

text \<open>
  The second half of \<^verbatim>\<open>load_latest_preview\<close>, from the call of
  \<^verbatim>\<open>_get_newest_filenames\<close> on the chosen \<open>image_files\<close> to the end. The result is
  the exception that leaves the method, if any, with the object and the disk as the
  method leaves them.
\<close>

definition refresh_previews ::
  "gui_images \<Rightarrow> filesystem \<Rightarrow> path \<Rightarrow> path list \<Rightarrow> int \<Rightarrow> int \<times> int \<Rightarrow>
   exn option \<times> gui_images \<times> filesystem" where
  "refresh_previews self fs gui_preview image_files thumbnail_size frame_dims =
     (case get_newest_filenames fs (previewcache self) image_files of
        Inl e \<Rightarrow> (Some e, self, fs)
      | Inr (image_files, cache) \<Rightarrow>
          let self = self\<lparr>previewcache := cache\<rparr>
          in if image_files = [] then (None, self, fs)
             else
               (case load_images_to_cache fs cache image_files frame_dims thumbnail_size of
                  Inl (e, cache) \<Rightarrow> (Some e, self\<lparr>previewcache := cache\<rparr>, fs)
                | Inr (False, cache) \<Rightarrow>
                    (None,
                     self\<lparr>previewcache :=
                            (if gui_preview \<in> set image_files
                             then cache\<lparr>modified := None\<rparr> else cache)\<rparr>,
                     fs)
                | Inr (True, cache) \<Rightarrow>
                    display_previews (self\<lparr>previewcache := cache\<rparr>) fs
                      gui_preview image_files frame_dims))"

text \<open>
  \<^verbatim>\<open>Images.load_latest_preview\<close>: the first half chooses the files, the single
  preview file alone when it is among them.
\<close>

definition load_latest_preview ::
  "gui_images \<Rightarrow> filesystem \<Rightarrow> int \<Rightarrow> int \<times> int \<Rightarrow>
   exn option \<times> gui_images \<times> filesystem" where
  "load_latest_preview self fs thumbnail_size frame_dims =
     (case pathoutput self of
        None \<Rightarrow> (Some AssertionError, self, fs)
      | Some pathout \<Rightarrow>
          (case (if batch_mode self then get_newest_folder fs pathout else Inr pathout) of
             Inl e \<Rightarrow> (Some e, self, fs)
           | Inr image_path \<Rightarrow>
               let image_files = get_images fs image_path;
                   gui_preview = path_join pathout ''.gui_preview.jpg''
               in if image_files = [] \<or>
                     (length image_files = 1 \<and> gui_preview \<notin> set image_files)
                  then (None, self, fs)
                  else
                    let image_files = (if gui_preview \<in> set image_files
                                       then [gui_preview] else image_files)
                    in refresh_previews self fs gui_preview image_files thumbnail_size
                         frame_dims))"

section \<open>The training previews\<close>










text \<open>
  What the image library does with a training preview: \<^verbatim>\<open>Image.open\<close> of a file,
  the \<open>i\<close>-th call of \<^verbatim>\<open>displayimg.resize\<close> for an image and the frame it is scaled
  to (the size asked for is computed from both in floating point), and
  \<^verbatim>\<open>ImageTk.PhotoImage\<close> of an image.
\<close>

record imaging =
  image_open :: "path \<Rightarrow> exn + pil_image"
  image_resize :: "pil_image \<Rightarrow> int \<times> int \<Rightarrow> nat \<Rightarrow> exn + pil_image"
  photo_image :: "pil_image \<Rightarrow> exn + photo_image"


text \<open>
  The loop of \<^verbatim>\<open>resize_image\<close> over \<^verbatim>\<open>range(0, 1000)\<close>: an \<open>OSError\<close> of an
  attempt is swallowed and the attempt repeated, the last one re-raises; any other
  exception leaves the loop at once.
\<close>

function resize_attempts :: "(nat \<Rightarrow> exn + pil_image) \<Rightarrow> pil_image \<Rightarrow> nat \<Rightarrow> exn + pil_image"
  where
  "resize_attempts attempt displayimg i =
     (if 1000 \<le> i then Inr displayimg
      else (case attempt i of
              Inr resized \<Rightarrow> Inr resized
            | Inl e \<Rightarrow>
                if isinstance_OSError e
                then (if i = 999 then Inl e else resize_attempts attempt displayimg (i + 1))
                else Inl e))"
  by pat_completeness auto
termination
  by (relation "measure (\<lambda>(attempt, displayimg, i). 1000 - i)") auto

declare resize_attempts.simps [simp del]

text \<open>
  The two ratios and the scale of \<^verbatim>\<open>resize_image\<close> are float divisions; each raises
  \<open>ZeroDivisionError\<close> on a zero divisor. The scale divides by the width of the
  image only when the ratio of the frame is at most the ratio of the image.
\<close>

definition scale_raises :: "pil_image \<Rightarrow> int \<times> int \<Rightarrow> bool" where
  "scale_raises displayimg frame_dims =
     (snd frame_dims = 0 \<or> snd displayimg = 0 \<or>
      (real_of_int (fst frame_dims) / real_of_int (snd frame_dims)
         \<le> real_of_int (fst displayimg) / real_of_int (snd displayimg) \<and>
       fst displayimg = 0))"

text \<open>
  \<^verbatim>\<open>Images.resize_image\<close>. Every exception comes before the assignment to the
  entry, so an exception leaves the object as it was.
\<close>

definition resize_image ::
  "imaging \<Rightarrow> gui_images \<Rightarrow> string \<Rightarrow> (int \<times> int) option \<Rightarrow> exn + gui_images" where
  "resize_image lib self name frame_dims =
     (case previewtrain self name of
        None \<Rightarrow> Inl KeyError
      | Some entry \<Rightarrow>
          (case (case frame_dims of
                   None \<Rightarrow> Inr (fst entry)
                 | Some dims \<Rightarrow>
                     if scale_raises (fst entry) dims then Inl ZeroDivisionError
                     else resize_attempts (image_resize lib (fst entry) dims) (fst entry) 0) of
             Inl e \<Rightarrow> Inl e
           | Inr displayimg \<Rightarrow>
               (case photo_image lib displayimg of
                  Inl e \<Rightarrow> Inl e
                | Inr photo \<Rightarrow>
                    Inr (self\<lparr>previewtrain :=
                               (previewtrain self)(name \<mapsto>
                                  (fst entry, Some photo, snd (snd entry)))\<rparr>))))"






section \<open>\<^verbatim>\<open>LongRunningTask\<close>\<close>

text \<open>
  A Python value is \<^verbatim>\<open>None\<close> or an object, known by its identity. What
  \<^verbatim>\<open>sys.exc_info()\<close> gives for an exception is its class, the exception object and
  its traceback.
\<close>

datatype pyobj = PyNone | PyObj nat

type_synonym exc_info = "exn \<times> nat \<times> nat"

text \<open>What calling the target of a task does: it returns a value or raises.\<close>

datatype target_outcome = Returns pyobj | Raises exc_info

text \<open>
  The task: the target (\<open>None\<close> when the thread was made without one), the captured
  exception \<open>err\<close>, the event \<open>complete\<close>, the queue of results, and the busy cursor
  that the configuration shows for the widget.
\<close>

record long_running_task =
  target :: "target_outcome option"
  err :: "exc_info option"
  complete :: bool
  queue :: "pyobj list"
  cursor_busy :: bool

text \<open>\<^verbatim>\<open>LongRunningTask.__init__\<close>\<close>

definition init_task :: "target_outcome option \<Rightarrow> long_running_task" where
  "init_task tgt =
     \<lparr>target = tgt, err = None, complete = False, queue = [], cursor_busy = True\<rparr>"

text \<open>
  \<^verbatim>\<open>LongRunningTask.run\<close>: the exception that leaves the method, if any, and the
  task. The handler is \<^verbatim>\<open>except Exception\<close>; the \<^verbatim>\<open>finally\<close> block sets the
  event and deletes the target in every case.
\<close>

definition run :: "long_running_task \<Rightarrow> exn option \<times> long_running_task" where
  "run task =
     (case target task of
        None \<Rightarrow> (None, task\<lparr>complete := True\<rparr>)
      | Some (Returns retval) \<Rightarrow>
          (None, task\<lparr>queue := queue task @ [retval], complete := True, target := None\<rparr>)
      | Some (Raises info) \<Rightarrow>
          if isinstance_Exception (fst info)
          then (None, task\<lparr>err := Some info, complete := True, target := None\<rparr>)
          else (Some (fst info), task\<lparr>complete := True, target := None\<rparr>))"

text \<open>
  What a call of \<^verbatim>\<open>get_result\<close> does: it returns a value, raises an exception
  object with a traceback, or waits on the empty queue.
\<close>

datatype call_result = Returned pyobj | Raised nat nat | Blocked

text \<open>\<^verbatim>\<open>LongRunningTask.get_result\<close>\<close>

definition get_result :: "long_running_task \<Rightarrow> call_result \<times> long_running_task" where
  "get_result task =
     (if \<not> complete task then (Returned PyNone, task)
      else (case err task of
              Some info \<Rightarrow> (Raised (fst (snd info)) (snd (snd info)), task\<lparr>cursor_busy := False\<rparr>)
            | None \<Rightarrow>
                (case queue task of
                   [] \<Rightarrow> (Blocked, task)
                 | retval # rest \<Rightarrow>
                     (Returned retval, task\<lparr>queue := rest, cursor_busy := False\<rparr>))))"

section \<open>The operations as the specification words them\<close>

text \<open>
  The specification's \<open>scan_new\<close>: every file when the watermark is unset, otherwise
  the files whose modification time \<open>mt\<close> is strictly greater than the watermark.
\<close>

definition scan_new_spec :: "(path \<Rightarrow> real) \<Rightarrow> real option \<Rightarrow> path list \<Rightarrow> path list" where
  "scan_new_spec mt watermark image_files =
     (case watermark of
        None \<Rightarrow> image_files
      | Some m \<Rightarrow> filter (\<lambda>f. mt f > m) image_files)"

text \<open>
  Consecutive calls of \<^verbatim>\<open>_process_samples\<close> with one \<open>num_images\<close>, one call for
  each batch of samples and file names, up to the first exception.
\<close>

fun process_batches ::
  "int \<Rightarrow> (thumbnail list \<times> path list) list \<Rightarrow> preview_cache \<Rightarrow>
   exn option \<times> preview_cache" where
  "process_batches n [] cache = (None, cache)"
| "process_batches n (batch # rest) cache =
     (case process_samples cache (fst batch) (snd batch) n of
        Inl (e, cache) \<Rightarrow> (Some e, cache)
      | Inr (appended, cache) \<Rightarrow> process_batches n rest cache)"

text \<open>The thumbnails that a cache holds, none before the first batch.\<close>

definition cached :: "preview_cache \<Rightarrow> thumbnail list" where
  "cached cache = (case images cache of None \<Rightarrow> [] | Some samples \<Rightarrow> samples)"

text \<open>
  A per-file load failure that the loop of \<^verbatim>\<open>_load_images_to_cache\<close> catches: an
  exception of \<^verbatim>\<open>Image.open\<close> (a permission error, or any other error deriving
  from \<open>Exception\<close>, a decode error among them) or an \<open>OSError\<close> of
  \<^verbatim>\<open>img.resize\<close>.
\<close>

definition caught_failure :: "load_result \<Rightarrow> bool" where
  "caught_failure r =
     (case r of
        OpenFails e \<Rightarrow> isinstance_PermissionError e \<or> isinstance_Exception e
      | ResizeFails e \<Rightarrow> isinstance_OSError e
      | OtherFails e \<Rightarrow> False
      | Loaded thumb \<Rightarrow> False)"

definition is_loaded :: "load_result \<Rightarrow> bool" where
  "is_loaded r = (case r of Loaded thumb \<Rightarrow> True | _ \<Rightarrow> False)"

definition thumbnail_of :: "load_result \<Rightarrow> thumbnail" where
  "thumbnail_of r = (case r of Loaded thumb \<Rightarrow> thumb | _ \<Rightarrow> [])"

text \<open>A thumbnail that is a square of \<open>n\<close> rows of \<open>n\<close> pixels.\<close>

definition square :: "nat \<Rightarrow> thumbnail \<Rightarrow> bool" where
  "square n thumb = (length thumb = n \<and> (\<forall>row\<in>set thumb. length row = n))"

text \<open>The cache holds no thumbnails yet, or thumbnails of \<open>n\<close> rows.\<close>

definition cache_of_size :: "preview_cache \<Rightarrow> int \<Rightarrow> bool" where
  "cache_of_size cache n =
     (case images cache of
        None \<Rightarrow> True
      | Some [] \<Rightarrow> False
      | Some (first # rest) \<Rightarrow> int (length first) = n)"

section \<open>Sample data\<close>

definition thumb_a :: thumbnail where
  "thumb_a = [[1, 2], [3, 4]]"

definition thumb_b :: thumbnail where
  "thumb_b = [[5, 6], [7, 8]]"

definition thumb_c :: thumbnail where
  "thumb_c = [[9, 9], [9, 9]]"

definition empty_cache :: preview_cache where
  "empty_cache = \<lparr>modified = None, images = None, filenames = [], placeholder = None\<rparr>"

definition two_files :: filesystem where
  "two_files =
     \<lparr>dirs = [''out'' \<mapsto> [''a.png'', ''b.JPG'', ''notes.txt'']],
      stat = [''out/a.png'' \<mapsto> (5, 5), ''out/b.JPG'' \<mapsto> (9, 9)],
      decode = (\<lambda>p s. if p = ''out/b.JPG'' then OpenFails PermissionError
                        else Loaded thumb_a)\<rparr>"

definition two_files_mtime :: "path \<Rightarrow> real" where
  "two_files_mtime p = (if p = ''out/a.png'' then 5 else 9)"

definition five_batches :: "(thumbnail list \<times> path list) list" where
  "five_batches =
     [([thumb_a], [''1.png'']), ([thumb_b], [''2.png'']), ([], []),
      ([thumb_c, thumb_a], [''3.png'', ''4.png'']), ([thumb_b], [''5.png''])]"

definition full_cache :: preview_cache where
  "full_cache =
     \<lparr>modified = Some 9, images = Some [thumb_a, thumb_b, thumb_c],
      filenames = [''1.png'', ''2.png'', ''3.png''], placeholder = None\<rparr>"

definition demo_images :: gui_images where
  "demo_images =
     \<lparr>pathpreview = ''cache/preview'', pathoutput = Some ''out'', batch_mode = False,
      previewoutput = Some thumb_c, previewtrain = Map.empty, previewcache = full_cache,
      errcount = 0\<rparr>"

definition broken_files :: filesystem where
  "broken_files =
     \<lparr>dirs = [''out'' \<mapsto> [''a.png'', ''b.JPG'']],
      stat = [''out/a.png'' \<mapsto> (20, 20), ''out/b.JPG'' \<mapsto> (21, 21)],
      decode = (\<lambda>p s. if p = ''out/a.png'' then OpenFails SyntaxError
                        else ResizeFails OSError)\<rparr>"

definition broken_files_mtime :: "path \<Rightarrow> real" where
  "broken_files_mtime p = (if p = ''out/a.png'' then 20 else 21)"

definition preview_files :: filesystem where
  "preview_files =
     \<lparr>dirs = [''out'' \<mapsto> [''a.png'', ''.gui_preview.jpg'', ''b.JPG'']],
      stat = [''out/a.png'' \<mapsto> (20, 20), ''out/.gui_preview.jpg'' \<mapsto> (12, 12),
              ''out/b.JPG'' \<mapsto> (21, 21)],
      decode = (\<lambda>p s. if p = ''out/.gui_preview.jpg'' then Loaded thumb_b
                        else Loaded thumb_a)\<rparr>"

definition broken_preview :: filesystem where
  "broken_preview = preview_files\<lparr>decode := (\<lambda>p s. OpenFails PermissionError)\<rparr>"

definition two_cache :: preview_cache where
  "two_cache =
     \<lparr>modified = Some 9, images = Some [thumb_a, thumb_b],
      filenames = [''1.png'', ''2.png''], placeholder = None\<rparr>"








section \<open>Properties of the preview cache\<close>

subsection \<open>The scan for new files\<close>

lemma modified_since_filter:
  "\<forall>f\<in>set xs. getmtime fs f = Inr (mt f) \<Longrightarrow>
   modified_since fs m xs = Inr (filter (\<lambda>f. mt f > m) xs)"
  by (induction xs) simp_all

lemma map_raise_Inr:
  "\<forall>x\<in>set xs. f x = Inr (g x) \<Longrightarrow> map_raise f xs = Inr (map g xs)"
  by (induction xs) simp_all

lemma py_max_Max:
  assumes "ts \<noteq> []"
  shows "py_max ts = Inr (Max (set ts))"
proof (cases ts)
  case Nil
  with assms show ?thesis by simp
next
  case (Cons t rest)
  then show ?thesis
    using Max.set_eq_fold [of t rest] by (simp add: py_max_def)
qed

lemma get_newest_filenames_eq:
  assumes listed: "\<forall>f\<in>set image_files. getmtime fs f = Inr (mt f)"
  shows "get_newest_filenames fs cache image_files =
           Inr (scan_new_spec mt (modified cache) image_files,
                if scan_new_spec mt (modified cache) image_files = [] then cache
                else cache\<lparr>modified :=
                       Some (Max (mt ` set (scan_new_spec mt (modified cache) image_files)))\<rparr>)"
proof -
  let ?retval = "scan_new_spec mt (modified cache) image_files"
  have sub: "\<forall>f\<in>set ?retval. getmtime fs f = Inr (mt f)"
    using listed by (auto simp: scan_new_spec_def split: option.splits)
  have scan: "(case modified cache of
                 None \<Rightarrow> Inr image_files
               | Some m \<Rightarrow> modified_since fs m image_files) = Inr ?retval"
    using modified_since_filter [OF listed]
    by (simp add: scan_new_spec_def split: option.splits)
  show ?thesis
  proof (cases "?retval = []")
    case True
    then show ?thesis by (simp add: get_newest_filenames_def scan)
  next
    case False
    then have "py_max (map mt ?retval) = Inr (Max (mt ` set ?retval))"
      by (simp add: py_max_Max)
    with False map_raise_Inr [OF sub] show ?thesis
      by (simp add: get_newest_filenames_def scan)
  qed
qed

text \<open>
  Claim C1. When every listed file has a modification time, the scan returns all the
  files if the watermark is unset and otherwise exactly the files modified strictly
  after the watermark; when none qualifies it returns the empty list and leaves the
  cache, watermark included, as it was; otherwise it sets the watermark to the greatest
  modification time among the files it returns.
\<close>

theorem get_newest_filenames_scan:
  assumes "\<forall>f\<in>set image_files. map_option fst (stat fs f) = Some (mt f)"
  shows "get_newest_filenames fs cache image_files =
           Inr (scan_new_spec mt (modified cache) image_files,
                if scan_new_spec mt (modified cache) image_files = [] then cache
                else cache\<lparr>modified :=
                       Some (Max (mt ` set (scan_new_spec mt (modified cache) image_files)))\<rparr>)"
proof (rule get_newest_filenames_eq)
  show "\<forall>f\<in>set image_files. getmtime fs f = Inr (mt f)"
    using assms by (auto simp: getmtime_def split: option.splits)
qed

theorem get_newest_filenames_scan_witness:
  "map_option fst (stat two_files ''out/a.png'') = Some (two_files_mtime ''out/a.png'') \<and>
   map_option fst (stat two_files ''out/b.JPG'') = Some (two_files_mtime ''out/b.JPG'') \<and>
   get_newest_filenames two_files (empty_cache\<lparr>modified := Some 5\<rparr>)
       [''out/a.png'', ''out/b.JPG''] =
     Inr ([''out/b.JPG''], empty_cache\<lparr>modified := Some 9\<rparr>) \<and>
   get_newest_filenames two_files (empty_cache\<lparr>modified := Some 9\<rparr>)
       [''out/a.png'', ''out/b.JPG''] =
     Inr ([], empty_cache\<lparr>modified := Some 9\<rparr>) \<and>
   get_newest_filenames two_files empty_cache [''out/a.png'', ''out/b.JPG''] =
     Inr ([''out/a.png'', ''out/b.JPG''], empty_cache\<lparr>modified := Some 9\<rparr>)"
proof -
  have listed: "\<forall>f\<in>set [''out/a.png'', ''out/b.JPG''].
      map_option fst (stat two_files f) = Some (two_files_mtime f)"
    by (simp add: two_files_def two_files_mtime_def)
  show ?thesis
    using listed
      get_newest_filenames_scan [OF listed, of "empty_cache\<lparr>modified := Some 5\<rparr>"]
      get_newest_filenames_scan [OF listed, of "empty_cache\<lparr>modified := Some 9\<rparr>"]
      get_newest_filenames_scan [OF listed, of empty_cache]
    by (simp add: scan_new_spec_def two_files_mtime_def empty_cache_def)
qed

subsection \<open>The sliding window\<close>

lemma slice_last_drop: "0 < n \<Longrightarrow> slice_last n xs = drop (length xs - nat n) xs"
  by (simp add: slice_last_def)

lemma length_slice_last: "0 < n \<Longrightarrow> length (slice_last n xs) = min (nat n) (length xs)"
  by (auto simp: slice_last_drop)

lemma set_slice_last: "0 < n \<Longrightarrow> set (slice_last n xs) \<subseteq> set xs"
  by (simp add: slice_last_drop set_drop_subset)

lemma slice_last_append_again:
  assumes "0 < n"
  shows "slice_last n (slice_last n xs @ ys) = slice_last n (xs @ ys)"
proof (cases "length xs \<le> nat n")
  case True
  then show ?thesis using assms by (simp add: slice_last_drop)
next
  case False
  let ?k = "length xs - nat n"
  have len: "length (drop ?k xs) = nat n" using False by simp
  have "slice_last n (slice_last n xs @ ys) = drop (length ys) (drop ?k xs @ ys)"
    using assms len by (simp add: slice_last_drop)
  also have "\<dots> = drop (length ys) (drop ?k (xs @ ys))"
    by simp
  also have "\<dots> = drop (length (xs @ ys) - nat n) (xs @ ys)"
    using False by (simp add: add.commute)
  finally show ?thesis using assms by (simp add: slice_last_drop)
qed

lemma np_array_uniform:
  "\<forall>t\<in>set samples. shape t = sh \<Longrightarrow> np_array samples = Inr samples"
  by (cases samples) (simp_all add: np_array_def)

lemma np_any_not_Nil: "np_any samples \<Longrightarrow> samples \<noteq> []"
  by (auto simp: np_any_def)

lemma np_concatenate_uniform:
  "\<forall>t\<in>set stored. shape t = sh \<Longrightarrow> \<forall>t\<in>set samples. shape t = sh \<Longrightarrow>
   samples \<noteq> [] \<Longrightarrow> np_concatenate stored samples = Inr (stored @ samples)"
  by (cases stored; cases samples) (simp_all add: np_concatenate_def)

lemma process_samples_kept:
  assumes "np_any samples"
    and "\<forall>t\<in>set (cached cache). shape t = sh"
    and "\<forall>t\<in>set samples. shape t = sh"
  shows "process_samples cache samples fnames n =
           Inr (True, cache\<lparr>filenames := slice_last n (filenames cache @ fnames),
                            images := Some (slice_last n (cached cache @ samples))\<rparr>)"
proof (cases "images cache")
  case None
  then show ?thesis
    using assms(1) by (simp add: process_samples_def np_array_uniform [OF assms(3)] cached_def)
next
  case (Some stored)
  then have "np_concatenate stored samples = Inr (stored @ samples)"
    using np_concatenate_uniform [OF _ assms(3) np_any_not_Nil [OF assms(1)], of stored]
      assms(2)
    by (simp add: cached_def)
  then show ?thesis
    using assms(1) Some
    by (simp add: process_samples_def np_array_uniform [OF assms(3)] cached_def)
qed

lemma process_samples_skipped:
  "\<not> np_any samples \<Longrightarrow> \<forall>t\<in>set samples. shape t = sh \<Longrightarrow>
   process_samples cache samples fnames n = Inr (False, cache)"
  using np_array_uniform [of samples sh] by (simp add: process_samples_def)

lemma process_batches_eq:
  assumes "0 < n"
    and "\<forall>t\<in>set (cached cache). shape t = sh"
    and "\<forall>b\<in>set batches. \<forall>t\<in>set (fst b). shape t = sh"
  shows "process_batches n batches cache =
           (None,
            if filter (\<lambda>b. np_any (fst b)) batches = [] then cache
            else cache\<lparr>filenames :=
                         slice_last n (filenames cache @
                           concat (map snd (filter (\<lambda>b. np_any (fst b)) batches))),
                       images :=
                         Some (slice_last n (cached cache @
                           concat (map fst (filter (\<lambda>b. np_any (fst b)) batches))))\<rparr>)"
  using assms(2,3)
proof (induction batches arbitrary: cache)
  case Nil
  then show ?case by simp
next
  case (Cons b bs)
  have b: "\<forall>t\<in>set (fst b). shape t = sh" and bs: "\<forall>b\<in>set bs. \<forall>t\<in>set (fst b). shape t = sh"
    using Cons.prems(2) by simp_all
  show ?case
  proof (cases "np_any (fst b)")
    case False
    then show ?thesis
      by (simp add: process_samples_skipped [OF False b] Cons.IH [OF Cons.prems(1) bs])
  next
    case True
    let ?next = "cache\<lparr>filenames := slice_last n (filenames cache @ snd b),
                         images := Some (slice_last n (cached cache @ fst b))\<rparr>"
    have nxt_cached: "cached ?next = slice_last n (cached cache @ fst b)"
      by (simp add: cached_def)
    then have "set (cached ?next) \<subseteq> set (cached cache @ fst b)"
      using set_slice_last [OF assms(1), of "cached cache @ fst b"] by simp
    then have nxt: "\<forall>t\<in>set (cached ?next). shape t = sh"
      using Cons.prems(1) b by auto
    have "process_batches n (b # bs) cache = process_batches n bs ?next"
      by (simp add: process_samples_kept [OF True Cons.prems(1) b])
    also note Cons.IH [OF nxt bs]
    finally show ?thesis
      using assms(1) True by (simp add: nxt_cached slice_last_append_again)
  qed
qed


lemma slice_last_zip:
  assumes "0 < n" "length xs = length ys"
  shows "zip (slice_last n xs) (slice_last n ys) = slice_last n (zip xs ys)"
  using assms by (simp add: slice_last_drop drop_zip)

lemma length_concat_fst_snd:
  "\<forall>b\<in>set bs. length (fst b) = length (snd b) \<Longrightarrow>
   length (concat (map fst bs)) = length (concat (map snd bs))"
  by (induction bs) simp_all

text \<open>
  Claim C2, as the code has it. The capacity \<open>n\<close> is at least one, the thumbnails
  of the cache and of the batches have one shape, and an array that the cache stores
  is not empty. Then no call raises; a batch without a non-zero pixel (an empty batch
  above all) is not appended; when no batch is kept the cache stays as it was, also
  when it is longer than \<open>n\<close>. Otherwise the cache holds the last \<open>n\<close> of the
  thumbnails it held followed by those of the kept batches, in their order, so
  \<open>min n total\<close> of them; the file names are cut to the same window, and they stay
  paired with the thumbnails when they were paired before and in each batch.
\<close>

theorem process_batches_window:
  fixes batches :: "(thumbnail list \<times> path list) list" and cache :: preview_cache
    and n :: int and sh :: "nat \<times> nat"
  defines "kept \<equiv> filter (\<lambda>b. np_any (fst b)) batches"
  defines "thumbs \<equiv> cached cache @ concat (map fst kept)"
  defines "names \<equiv> filenames cache @ concat (map snd kept)"
  defines "result \<equiv> snd (process_batches n batches cache)"
  assumes capacity: "0 < n"
    and stored: "images cache \<noteq> Some []"
    and cache_shape: "\<forall>t\<in>set (cached cache). shape t = sh"
    and batch_shape: "\<forall>b\<in>set batches. \<forall>t\<in>set (fst b). shape t = sh"
  shows "fst (process_batches n batches cache) = None \<and>
         images result \<noteq> Some [] \<and>
         (kept = [] \<longrightarrow> result = cache) \<and>
         (kept \<noteq> [] \<longrightarrow>
            images result = Some (drop (length thumbs - nat n) thumbs) \<and>
            filenames result = drop (length names - nat n) names \<and>
            length (cached result) = min (nat n) (length thumbs) \<and>
            (length (cached cache) = length (filenames cache) \<and>
             (\<forall>b\<in>set kept. length (fst b) = length (snd b)) \<longrightarrow>
               zip (cached result) (filenames result) =
                 drop (length thumbs - nat n) (zip thumbs names)))"
proof -
  note eq = process_batches_eq [OF capacity cache_shape batch_shape, folded kept_def,
      folded thumbs_def names_def]
  have quiet: "fst (process_batches n batches cache) = None"
    using eq by simp
  have none: "kept = [] \<longrightarrow> result = cache"
    using eq by (simp add: result_def)
  have some: "images result = Some (drop (length thumbs - nat n) thumbs)"
    "filenames result = drop (length names - nat n) names"
    if "kept \<noteq> []"
    using eq that capacity by (simp_all add: result_def slice_last_drop)
  have len: "length (cached result) = min (nat n) (length thumbs)"
    if "kept \<noteq> []"
    using some(1) [OF that] by (auto simp: cached_def)
  have filled: "images result \<noteq> Some []"
  proof (cases "kept = []")
    case True
    then show ?thesis using none stored by simp
  next
    case False
    then obtain b where "b \<in> set kept" by (cases kept) auto
    then have "np_any (fst b)"
      by (simp add: kept_def)
    then have "fst b \<noteq> []"
      by (rule np_any_not_Nil)
    with \<open>b \<in> set kept\<close> have "concat (map fst kept) \<noteq> []"
      by (auto intro: bexI [of _ b])
    then have "0 < length thumbs" by (simp add: thumbs_def)
    then have "0 < length (cached result)"
      using len [OF False] capacity by simp
    then show ?thesis by (auto simp: cached_def)
  qed
  have par: "zip (cached result) (filenames result) =
               drop (length thumbs - nat n) (zip thumbs names)"
    if "kept \<noteq> []" and "length (cached cache) = length (filenames cache)"
      and "\<forall>b\<in>set kept. length (fst b) = length (snd b)"
  proof -
    have "length thumbs = length names"
      using that(2) length_concat_fst_snd [OF that(3)] by (simp add: thumbs_def names_def)
    then show ?thesis
      using some [OF that(1)] by (simp add: cached_def drop_zip)
  qed
  show ?thesis using quiet filled none some len par by blast
qed

theorem process_batches_window_witness:
  "(0::int) < 3 \<and> images empty_cache \<noteq> Some [] \<and>
   shape thumb_a = (2, 2) \<and> shape thumb_b = (2, 2) \<and> shape thumb_c = (2, 2) \<and>
   fst (process_batches 3 five_batches empty_cache) = None \<and>
   images (snd (process_batches 3 five_batches empty_cache)) =
     Some [thumb_c, thumb_a, thumb_b] \<and>
   filenames (snd (process_batches 3 five_batches empty_cache)) =
     [''3.png'', ''4.png'', ''5.png''] \<and>
   length (cached (snd (process_batches 3 five_batches empty_cache))) = min 3 5"
proof -
  have kept: "filter (\<lambda>b. np_any (fst b)) five_batches =
      [([thumb_a], [''1.png'']), ([thumb_b], [''2.png'']),
       ([thumb_c, thumb_a], [''3.png'', ''4.png'']), ([thumb_b], [''5.png''])]"
    by (simp add: five_batches_def np_any_def thumb_a_def thumb_b_def thumb_c_def)
  have shapes: "shape thumb_a = (2, 2)" "shape thumb_b = (2, 2)" "shape thumb_c = (2, 2)"
    by (simp_all add: shape_def width_def thumb_a_def thumb_b_def thumb_c_def)
  have stored: "images empty_cache \<noteq> Some []"
    by (simp add: empty_cache_def)
  have cache_shape: "\<forall>t\<in>set (cached empty_cache). shape t = (2, 2)"
    by (simp add: cached_def empty_cache_def)
  have batch_shape: "\<forall>b\<in>set five_batches. \<forall>t\<in>set (fst b). shape t = (2, 2)"
    using shapes by (simp add: five_batches_def)
  have capacity: "(0::int) < 3" by simp
  show ?thesis
    using process_batches_window [OF capacity stored cache_shape batch_shape] shapes stored
    by (simp add: kept cached_def empty_cache_def)
qed

text \<open>
  The claim as worded fails for a cache longer than the capacity and an empty batch:
  three thumbnails stay in a cache of capacity two.
\<close>

theorem process_samples_oversized_counterexample:
  "process_samples full_cache [] [] 2 = Inr (False, full_cache) \<and>
   process_batches 2 [([], [])] full_cache = (None, full_cache) \<and>
   \<not> length (cached (snd (process_batches 2 [([], [])] full_cache))) \<le> 2"
  by (simp add: process_samples_def np_array_def np_any_def full_cache_def cached_def)

subsection \<open>Loading the files of a batch\<close>

lemma load_samples_eq:
  "\<forall>f\<in>set files. caught_failure (decode fs f ts) \<or> is_loaded (decode fs f ts) \<Longrightarrow>
   load_samples fs ts files samples dropped_files =
     Inr (samples @ map (\<lambda>f. thumbnail_of (decode fs f ts))
                      (filter (\<lambda>f. is_loaded (decode fs f ts)) files),
          dropped_files @ filter (\<lambda>f. caught_failure (decode fs f ts)) files)"
proof (induction files arbitrary: samples dropped_files)
  case Nil
  then show ?case by simp
next
  case (Cons f files)
  then show ?case
    by (cases "decode fs f ts")
       (auto simp: caught_failure_def is_loaded_def thumbnail_of_def)
qed

lemma not_dropped_iff_loaded:
  assumes "\<forall>f\<in>set files. caught_failure (decode fs f ts) \<or> is_loaded (decode fs f ts)"
  shows "filter (\<lambda>f. f \<notin> set (filter (\<lambda>f. caught_failure (decode fs f ts)) files)) files =
         filter (\<lambda>f. is_loaded (decode fs f ts)) files"
proof (rule filter_cong [OF refl])
  fix f assume "f \<in> set files"
  with assms have "caught_failure (decode fs f ts) \<or> is_loaded (decode fs f ts)" by blast
  moreover have "\<not> (caught_failure (decode fs f ts) \<and> is_loaded (decode fs f ts))"
    by (cases "decode fs f ts") (simp_all add: caught_failure_def is_loaded_def)
  ultimately show "(f \<notin> set (filter (\<lambda>f. caught_failure (decode fs f ts)) files)) =
                   is_loaded (decode fs f ts)"
    using \<open>f \<in> set files\<close> by auto
qed

lemma sorted_by_ctime_eq:
  assumes "\<forall>f\<in>set files. stat fs f \<noteq> None"
  shows "sorted_by_ctime fs files =
           Inr (sort_key (\<lambda>p. case stat fs p of None \<Rightarrow> 0 | Some t \<Rightarrow> snd t) files)"
proof -
  have "\<forall>f\<in>set files. getctime fs f = Inr (snd (the (stat fs f)))"
    using assms by (auto simp: getctime_def)
  from map_raise_Inr [OF this] show ?thesis
    by (simp add: sorted_by_ctime_def)
qed

lemma load_images_to_cache_eq:
  fixes fs :: filesystem and image_files :: "path list"
  defines "by_ctime \<equiv> sort_key (\<lambda>p. case stat fs p of None \<Rightarrow> 0 | Some t \<Rightarrow> snd t) image_files"
  assumes size: "thumbnail_size \<noteq> 0"
    and exist: "\<forall>f\<in>set image_files. stat fs f \<noteq> None"
    and outcome: "\<forall>f\<in>set image_files.
                    caught_failure (decode fs f thumbnail_size) \<or>
                    is_loaded (decode fs f thumbnail_size)"
  shows "load_images_to_cache fs cache image_files frame_dims thumbnail_size =
           (let n = num_images frame_dims thumbnail_size;
                show_files = drop (length image_files - nat n) by_ctime;
                kept = filter (\<lambda>f. is_loaded (decode fs f thumbnail_size)) show_files
            in if n = 0 then Inr (False, cache)
               else process_samples cache
                      (map (\<lambda>f. thumbnail_of (decode fs f thumbnail_size)) kept) kept n)"
proof -
  let ?n = "num_images frame_dims thumbnail_size"
  let ?start = "nat (if int (length image_files) > ?n then int (length image_files) - ?n else 0)"
  let ?show = "drop (length image_files - nat ?n) by_ctime"
  have idx: "drop ?start by_ctime = ?show"
  proof (cases "0 \<le> ?n")
    case True
    then have "?start = length image_files - nat ?n"
      by (simp add: nat_diff_distrib')
    then show ?thesis by simp
  next
    case False
    then show ?thesis by (simp add: by_ctime_def)
  qed
  have "set ?show \<subseteq> set image_files"
    using set_drop_subset [of "length image_files - nat ?n" by_ctime]
    by (simp add: by_ctime_def)
  then have out: "\<forall>f\<in>set ?show. caught_failure (decode fs f thumbnail_size) \<or>
                                  is_loaded (decode fs f thumbnail_size)"
    using outcome by blast
  have "load_images_to_cache fs cache image_files frame_dims thumbnail_size =
          (if ?n = 0 then Inr (False, cache)
           else (case load_samples fs thumbnail_size (drop ?start by_ctime) [] [] of
                   Inl e \<Rightarrow> Inl (e, cache)
                 | Inr (samples, dropped_files) \<Rightarrow>
                     process_samples cache samples
                       (filter (\<lambda>fname. fname \<notin> set dropped_files)
                          (drop ?start by_ctime)) ?n))"
    unfolding load_images_to_cache_def Let_def sorted_by_ctime_eq [OF exist] by_ctime_def
    by (simp only: size if_False sum.case)
  also have "\<dots> = (if ?n = 0 then Inr (False, cache)
           else (case load_samples fs thumbnail_size ?show [] [] of
                   Inl e \<Rightarrow> Inl (e, cache)
                 | Inr (samples, dropped_files) \<Rightarrow>
                     process_samples cache samples
                       (filter (\<lambda>fname. fname \<notin> set dropped_files) ?show) ?n))"
    by (simp only: idx)
  also have "\<dots> = (if ?n = 0 then Inr (False, cache)
           else process_samples cache
                  (map (\<lambda>f. thumbnail_of (decode fs f thumbnail_size))
                     (filter (\<lambda>f. is_loaded (decode fs f thumbnail_size)) ?show))
                  (filter (\<lambda>f. is_loaded (decode fs f thumbnail_size)) ?show) ?n)"
    by (simp only: load_samples_eq [OF out] sum.case prod.case append_Nil
        not_dropped_iff_loaded [OF out])
  finally show ?thesis by (simp add: Let_def)
qed

text \<open>
  Claim C8, as the code has it. When every file of the batch either loads or fails in
  one of the caught ways (an exception of \<^verbatim>\<open>Image.open\<close>, an \<open>OSError\<close> of
  \<^verbatim>\<open>img.resize\<close>), no exception leaves the loop: the samples are the
  thumbnails of the files that loaded, the file names passed on are exactly those
  files, and no file that failed is among them. \<^verbatim>\<open>_load_images_to_cache\<close> then is
  \<^verbatim>\<open>_process_samples\<close> on these samples and names, which returns a value when the
  thumbnails loaded and those of the cache have one shape and an array that the cache
  stores is not empty. \<open>show_files\<close> are the newest
  files by creation time that fit the panel: every file when the panel has room for
  all of them, and then the samples are as many as the files that load.
\<close>

theorem load_images_to_cache_drops_failures:
  fixes fs :: filesystem and image_files :: "path list"
    and frame_dims :: "int \<times> int" and thumbnail_size :: int
    and cache :: preview_cache and sh :: "nat \<times> nat"
  defines "n \<equiv> num_images frame_dims thumbnail_size"
  defines "by_ctime \<equiv>
             sort_key (\<lambda>p. case stat fs p of None \<Rightarrow> 0 | Some t \<Rightarrow> snd t) image_files"
  defines "show_files \<equiv> drop (length image_files - nat n) by_ctime"
  defines "kept \<equiv> filter (\<lambda>f. is_loaded (decode fs f thumbnail_size)) show_files"
  defines "thumbs \<equiv> map (\<lambda>f. thumbnail_of (decode fs f thumbnail_size)) kept"
  assumes size: "thumbnail_size \<noteq> 0"
    and exist: "\<forall>f\<in>set image_files. stat fs f \<noteq> None"
    and outcome: "\<forall>f\<in>set image_files.
                    caught_failure (decode fs f thumbnail_size) \<or>
                    is_loaded (decode fs f thumbnail_size)"
  shows "load_samples fs thumbnail_size show_files [] [] =
           Inr (thumbs, filter (\<lambda>f. caught_failure (decode fs f thumbnail_size)) show_files) \<and>
         filter (\<lambda>f. f \<notin> set (filter (\<lambda>f. caught_failure (decode fs f thumbnail_size))
                                   show_files)) show_files = kept \<and>
         (\<forall>f\<in>set show_files. caught_failure (decode fs f thumbnail_size) \<longrightarrow> f \<notin> set kept) \<and>
         length thumbs = length kept \<and>
         load_images_to_cache fs cache image_files frame_dims thumbnail_size =
           (if n = 0 then Inr (False, cache) else process_samples cache thumbs kept n) \<and>
         (images cache \<noteq> Some [] \<and>
          (\<forall>t\<in>set (cached cache) \<union> set thumbs. shape t = sh) \<longrightarrow>
            load_images_to_cache fs cache image_files frame_dims thumbnail_size =
              Inr (if n = 0 \<or> \<not> np_any thumbs then (False, cache)
                   else (True, cache\<lparr>filenames := slice_last n (filenames cache @ kept),
                                      images := Some (slice_last n (cached cache @ thumbs))\<rparr>))) \<and>
         (int (length image_files) \<le> n \<longrightarrow>
            show_files = by_ctime \<and>
            set kept = {f \<in> set image_files. is_loaded (decode fs f thumbnail_size)} \<and>
            length kept =
              length (filter (\<lambda>f. is_loaded (decode fs f thumbnail_size)) image_files))"
proof -
  have "set show_files \<subseteq> set image_files"
    unfolding show_files_def by_ctime_def
    using set_drop_subset [of _ "sort_key (\<lambda>p. case stat fs p of None \<Rightarrow> 0 | Some t \<Rightarrow> snd t)
                                   image_files"]
    by simp
  then have out: "\<forall>f\<in>set show_files. caught_failure (decode fs f thumbnail_size) \<or>
                                      is_loaded (decode fs f thumbnail_size)"
    using outcome by blast
  have loop: "load_samples fs thumbnail_size show_files [] [] =
      Inr (thumbs, filter (\<lambda>f. caught_failure (decode fs f thumbnail_size)) show_files)"
    using load_samples_eq [OF out, of "[]" "[]"] by (simp add: thumbs_def kept_def)
  have names: "filter (\<lambda>f. f \<notin> set (filter (\<lambda>f. caught_failure (decode fs f thumbnail_size))
      show_files)) show_files = kept"
    using not_dropped_iff_loaded [OF out] by (simp only: kept_def)
  have excl: "\<forall>f\<in>set show_files. caught_failure (decode fs f thumbnail_size) \<longrightarrow> f \<notin> set kept"
  proof (intro ballI impI)
    fix f assume "caught_failure (decode fs f thumbnail_size)"
    then have "\<not> is_loaded (decode fs f thumbnail_size)"
      by (cases "decode fs f thumbnail_size") (simp_all add: caught_failure_def is_loaded_def)
    then show "f \<notin> set kept" by (simp add: kept_def)
  qed
  have paired: "length thumbs = length kept"
    by (simp add: thumbs_def)
  have whole: "load_images_to_cache fs cache image_files frame_dims thumbnail_size =
      (if n = 0 then Inr (False, cache) else process_samples cache thumbs kept n)"
    using load_images_to_cache_eq [OF size exist outcome, of cache frame_dims]
    by (simp add: Let_def n_def by_ctime_def show_files_def kept_def thumbs_def)
  have returns: "load_images_to_cache fs cache image_files frame_dims thumbnail_size =
      Inr (if n = 0 \<or> \<not> np_any thumbs then (False, cache)
           else (True, cache\<lparr>filenames := slice_last n (filenames cache @ kept),
                              images := Some (slice_last n (cached cache @ thumbs))\<rparr>))"
    if stored: "images cache \<noteq> Some [] \<and>
                (\<forall>t\<in>set (cached cache) \<union> set thumbs. shape t = sh)"
  proof -
    from stored have shapes: "\<forall>t\<in>set (cached cache) \<union> set thumbs. shape t = sh"
      by simp
    have c: "\<forall>t\<in>set (cached cache). shape t = sh" and t: "\<forall>t\<in>set thumbs. shape t = sh"
      using shapes by simp_all
    show ?thesis
    proof (cases "np_any thumbs")
      case True
      then show ?thesis
        by (simp add: whole process_samples_kept [OF True c t])
    next
      case False
      then show ?thesis
        by (simp add: whole process_samples_skipped [OF False t])
    qed
  qed
  have room: "show_files = by_ctime \<and>
      set kept = {f \<in> set image_files. is_loaded (decode fs f thumbnail_size)} \<and>
      length kept = length (filter (\<lambda>f. is_loaded (decode fs f thumbnail_size)) image_files)"
    if "int (length image_files) \<le> n"
  proof -
    have "length image_files - nat n = 0" using that by simp
    then have all: "show_files = by_ctime" by (simp add: show_files_def)
    have "kept = sort_key (\<lambda>p. case stat fs p of None \<Rightarrow> 0 | Some t \<Rightarrow> snd t)
                   (filter (\<lambda>f. is_loaded (decode fs f thumbnail_size)) image_files)"
      by (simp add: kept_def all by_ctime_def filter_sort)
    then show ?thesis using all by auto
  qed
  show ?thesis using loop names excl paired whole returns room by blast
qed

theorem load_images_to_cache_drops_failures_witness:
  "(2::int) \<noteq> 0 \<and>
   stat two_files ''out/a.png'' \<noteq> None \<and> stat two_files ''out/b.JPG'' \<noteq> None \<and>
   is_loaded (decode two_files ''out/a.png'' 2) \<and>
   caught_failure (decode two_files ''out/b.JPG'' 2) \<and>
   decode two_files ''out/b.JPG'' 2 = OpenFails PermissionError \<and>
   int (length [''out/a.png'', ''out/b.JPG'']) \<le> num_images (4, 4) 2 \<and>
   images empty_cache \<noteq> Some [] \<and> shape thumb_a = (2, 2) \<and> cached empty_cache = [] \<and>
   load_samples two_files 2 [''out/a.png'', ''out/b.JPG''] [] [] =
     Inr ([thumb_a], [''out/b.JPG'']) \<and>
   load_images_to_cache two_files empty_cache [''out/a.png'', ''out/b.JPG''] (4, 4) 2 =
     Inr (True, empty_cache\<lparr>filenames := [''out/a.png''], images := Some [thumb_a]\<rparr>)"
proof -
  have facts: "stat two_files ''out/a.png'' \<noteq> None" "stat two_files ''out/b.JPG'' \<noteq> None"
    "is_loaded (decode two_files ''out/a.png'' 2)"
    "caught_failure (decode two_files ''out/b.JPG'' 2)"
    "decode two_files ''out/b.JPG'' 2 = OpenFails PermissionError"
    "decode two_files ''out/a.png'' 2 = Loaded thumb_a"
    "thumbnail_of (decode two_files ''out/a.png'' 2) = thumb_a"
    "\<not> is_loaded (decode two_files ''out/b.JPG'' 2)"
    "stat two_files ''out/a.png'' = Some (5, 5)" "stat two_files ''out/b.JPG'' = Some (9, 9)"
    by (simp_all add: two_files_def is_loaded_def caught_failure_def thumbnail_of_def
        isinstance_PermissionError_def)
  have any: "np_any [thumb_a]"
    by (simp add: np_any_def thumb_a_def)
  have shapes: "shape thumb_a = (2, 2)" "cached empty_cache = []"
    by (simp_all add: shape_def width_def thumb_a_def cached_def empty_cache_def)
  have names: "filenames empty_cache = []"
    by (simp add: empty_cache_def)
  have exist: "\<forall>f\<in>set [''out/a.png'', ''out/b.JPG'']. stat two_files f \<noteq> None"
    using facts by simp
  have outcome: "\<forall>f\<in>set [''out/a.png'', ''out/b.JPG''].
      caught_failure (decode two_files f 2) \<or> is_loaded (decode two_files f 2)"
    using facts by simp
  have size: "(2::int) \<noteq> 0" by simp
  show ?thesis
    using load_images_to_cache_drops_failures [OF size exist outcome,
        where cache = empty_cache and frame_dims = "(4, 4)" and sh = "(2, 2)"]
      facts any shapes names
    by (simp add: num_images_def slice_last_def caught_failure_def is_loaded_def
        thumbnail_of_def isinstance_PermissionError_def process_samples_def np_array_def
        empty_cache_def)
qed

text \<open>
  The example of the claim fails on a panel with room for one thumbnail: of the valid
  image and the file that raises a permission error, only the newest by creation time
  is tried, here the failing one, and no thumbnail results.
\<close>

theorem load_images_to_cache_no_room_for_both_counterexample:
  "is_loaded (decode two_files ''out/a.png'' 2) \<and>
   decode two_files ''out/b.JPG'' 2 = OpenFails PermissionError \<and>
   num_images (2, 2) 2 = 1 \<and>
   load_images_to_cache two_files empty_cache [''out/a.png'', ''out/b.JPG''] (2, 2) 2 =
     Inr (False, empty_cache) \<and>
   cached empty_cache = []"
  by (simp add: load_images_to_cache_def num_images_def sorted_by_ctime_def getctime_def
      two_files_def is_loaded_def process_samples_def np_array_def np_any_def cached_def
      empty_cache_def isinstance_PermissionError_def)

subsection \<open>The refresh\<close>

lemma getmtime_of_stat:
  "map_option fst (stat fs f) = Some t \<Longrightarrow> getmtime fs f = Inr t"
  by (auto simp: getmtime_def split: option.splits)

lemma set_scan_new_spec: "set (scan_new_spec mt w files) \<subseteq> set files"
  by (auto simp: scan_new_spec_def split: option.splits)

lemma process_samples_Nil: "process_samples cache [] fnames n = Inr (False, cache)"
  by (simp add: process_samples_def np_array_def np_any_def)

lemma load_images_to_cache_none_loaded:
  assumes size: "thumbnail_size \<noteq> 0"
    and exist: "\<forall>f\<in>set image_files. stat fs f \<noteq> None"
    and fail: "\<forall>f\<in>set image_files. caught_failure (decode fs f thumbnail_size)"
  shows "load_images_to_cache fs cache image_files frame_dims thumbnail_size = Inr (False, cache)"
proof -
  have outcome: "\<forall>f\<in>set image_files.
      caught_failure (decode fs f thumbnail_size) \<or> is_loaded (decode fs f thumbnail_size)"
    using fail by blast
  have none: "filter (\<lambda>f. is_loaded (decode fs f thumbnail_size)) (drop k
      (sort_key (\<lambda>p. case stat fs p of None \<Rightarrow> 0 | Some t \<Rightarrow> snd t) image_files)) = []" for k
  proof -
    have "\<forall>f\<in>set image_files. \<not> is_loaded (decode fs f thumbnail_size)"
    proof
      fix f assume "f \<in> set image_files"
      with fail have "caught_failure (decode fs f thumbnail_size)" by blast
      then show "\<not> is_loaded (decode fs f thumbnail_size)"
        by (cases "decode fs f thumbnail_size") (simp_all add: caught_failure_def is_loaded_def)
    qed
    moreover have "set (drop k (sort_key (\<lambda>p. case stat fs p of None \<Rightarrow> 0 | Some t \<Rightarrow> snd t)
        image_files)) \<subseteq> set image_files"
      using set_drop_subset [of k] by fastforce
    ultimately show ?thesis by (auto simp: filter_empty_conv)
  qed
  show ?thesis
    using load_images_to_cache_eq [OF size exist outcome, of cache frame_dims]
    by (simp add: Let_def none process_samples_Nil)
qed

lemma refresh_previews_none_loaded:
  assumes listed: "\<forall>f\<in>set image_files. map_option fst (stat fs f) = Some (mt f)"
    and fail: "\<forall>f\<in>set (scan_new_spec mt (modified (previewcache self)) image_files).
                 caught_failure (decode fs f thumbnail_size)"
  shows "\<exists>e self'.
           refresh_previews self fs gui_preview image_files thumbnail_size frame_dims =
             (e, self', fs) \<and>
           (thumbnail_size \<noteq> 0 \<longrightarrow> e = None) \<and>
           images (previewcache self') = images (previewcache self) \<and>
           filenames (previewcache self') = filenames (previewcache self) \<and>
           placeholder (previewcache self') = placeholder (previewcache self) \<and>
           previewoutput self' = previewoutput self"
proof -
  let ?cache = "previewcache self"
  let ?new = "scan_new_spec mt (modified ?cache) image_files"
  let ?c1 = "if ?new = [] then ?cache
             else ?cache\<lparr>modified := Some (Max (mt ` set ?new))\<rparr>"
  have mtimes: "\<forall>f\<in>set image_files. getmtime fs f = Inr (mt f)"
    using listed by (simp add: getmtime_of_stat)
  have scan: "get_newest_filenames fs ?cache image_files = Inr (?new, ?c1)"
    by (rule get_newest_filenames_eq [OF mtimes])
  show ?thesis
  proof (cases "?new = []")
    case True
    then show ?thesis by (simp add: refresh_previews_def scan)
  next
    case False
    note new = this
    show ?thesis
    proof (cases "thumbnail_size = 0")
      case True
      then show ?thesis
        using new by (simp add: refresh_previews_def scan load_images_to_cache_def)
    next
      case False
      have exist: "\<forall>f\<in>set ?new. stat fs f \<noteq> None"
        using listed set_scan_new_spec [of mt "modified ?cache" image_files] by fastforce
      have "load_images_to_cache fs ?c1 ?new frame_dims thumbnail_size = Inr (False, ?c1)"
        by (rule load_images_to_cache_none_loaded [OF False exist fail])
      then show ?thesis
        using new False by (simp add: refresh_previews_def scan)
    qed
  qed
qed

lemma load_latest_preview_choice:
  assumes path: "pathoutput self = Some pathout"
    and folder: "(if batch_mode self then get_newest_folder fs pathout else Inr pathout) =
                   Inr image_path"
  shows "load_latest_preview self fs thumbnail_size frame_dims =
           (let image_files = get_images fs image_path;
                gui_preview = path_join pathout ''.gui_preview.jpg''
            in if image_files = [] \<or> (length image_files = 1 \<and> gui_preview \<notin> set image_files)
               then (None, self, fs)
               else refresh_previews self fs gui_preview
                      (if gui_preview \<in> set image_files then [gui_preview] else image_files)
                      thumbnail_size frame_dims)"
proof (cases "batch_mode self")
  case True
  with folder have "get_newest_folder fs pathout = Inr image_path" by simp
  with True path show ?thesis by (simp add: load_latest_preview_def Let_def)
next
  case False
  with folder have "pathout = image_path" by simp
  with False path show ?thesis by (simp add: load_latest_preview_def Let_def)
qed

text \<open>
  Claim C5. When every new file (every listed file modified after the watermark, or
  every listed file when the watermark is unset) fails to load in one of the caught
  ways, the refresh ends without an exception (for a thumbnail size other than zero)
  and leaves the thumbnails of the cache, its file names, its placeholder and the
  composed preview as they were, and the disk untouched.
\<close>

theorem load_latest_preview_no_thumbnails:
  assumes path: "pathoutput self = Some pathout"
    and folder: "(if batch_mode self then get_newest_folder fs pathout else Inr pathout) =
                   Inr image_path"
    and listed: "\<forall>f\<in>set (get_images fs image_path). map_option fst (stat fs f) = Some (mt f)"
    and fail: "\<forall>f\<in>set (scan_new_spec mt (modified (previewcache self))
                              (get_images fs image_path)).
                 caught_failure (decode fs f thumbnail_size)"
  shows "\<exists>e self'.
           load_latest_preview self fs thumbnail_size frame_dims = (e, self', fs) \<and>
           (thumbnail_size \<noteq> 0 \<longrightarrow> e = None) \<and>
           images (previewcache self') = images (previewcache self) \<and>
           filenames (previewcache self') = filenames (previewcache self) \<and>
           placeholder (previewcache self') = placeholder (previewcache self) \<and>
           previewoutput self' = previewoutput self"
proof -
  let ?files = "get_images fs image_path"
  let ?gui = "path_join pathout ''.gui_preview.jpg''"
  let ?chosen = "if ?gui \<in> set ?files then [?gui] else ?files"
  have sub: "set ?chosen \<subseteq> set ?files" by simp
  have listed': "\<forall>f\<in>set ?chosen. map_option fst (stat fs f) = Some (mt f)"
    using listed sub by blast
  have "set (scan_new_spec mt (modified (previewcache self)) ?chosen) \<subseteq>
        set (scan_new_spec mt (modified (previewcache self)) ?files)"
    using sub by (auto simp: scan_new_spec_def split: option.splits if_splits)
  then have fail': "\<forall>f\<in>set (scan_new_spec mt (modified (previewcache self)) ?chosen).
                      caught_failure (decode fs f thumbnail_size)"
    using fail by blast
  show ?thesis
  proof (cases "?files = [] \<or> (length ?files = 1 \<and> ?gui \<notin> set ?files)")
    case True
    then show ?thesis
      by (simp add: load_latest_preview_choice [OF path folder] Let_def)
  next
    case False
    then have "load_latest_preview self fs thumbnail_size frame_dims =
                 refresh_previews self fs ?gui ?chosen thumbnail_size frame_dims"
      unfolding load_latest_preview_choice [OF path folder] Let_def
      by (simp only: if_False)
    then show ?thesis
      using refresh_previews_none_loaded [OF listed' fail', of ?gui frame_dims] by simp
  qed
qed

lemma get_images_broken_files:
  "get_images broken_files ''out'' = [''out/a.png'', ''out/b.JPG'']"
  by code_simp

theorem load_latest_preview_no_thumbnails_witness:
  "pathoutput demo_images = Some ''out'' \<and>
   (if batch_mode demo_images then get_newest_folder broken_files ''out'' else Inr ''out'') =
     Inr ''out'' \<and>
   map_option fst (stat broken_files ''out/a.png'') = Some (broken_files_mtime ''out/a.png'') \<and>
   map_option fst (stat broken_files ''out/b.JPG'') = Some (broken_files_mtime ''out/b.JPG'') \<and>
   caught_failure (decode broken_files ''out/a.png'' 2) \<and>
   caught_failure (decode broken_files ''out/b.JPG'' 2) \<and>
   (\<exists>e self'.
      load_latest_preview demo_images broken_files 2 (4, 4) = (e, self', broken_files) \<and>
      e = None \<and>
      images (previewcache self') = Some [thumb_a, thumb_b, thumb_c] \<and>
      filenames (previewcache self') = [''1.png'', ''2.png'', ''3.png''] \<and>
      previewoutput self' = Some thumb_c)"
proof -
  have path: "pathoutput demo_images = Some ''out''"
    and folder: "(if batch_mode demo_images then get_newest_folder broken_files ''out''
                  else Inr ''out'') = Inr ''out''"
    by (simp_all add: demo_images_def)
  have stats: "map_option fst (stat broken_files ''out/a.png'') =
                 Some (broken_files_mtime ''out/a.png'')"
    "map_option fst (stat broken_files ''out/b.JPG'') = Some (broken_files_mtime ''out/b.JPG'')"
    by (simp_all add: broken_files_def broken_files_mtime_def)
  have fails: "caught_failure (decode broken_files ''out/a.png'' 2)"
    "caught_failure (decode broken_files ''out/b.JPG'' 2)"
    by (simp_all add: broken_files_def caught_failure_def isinstance_Exception_def
        isinstance_OSError_def)
  have listed: "\<forall>f\<in>set (get_images broken_files ''out'').
                  map_option fst (stat broken_files f) = Some (broken_files_mtime f)"
    using stats by (simp add: get_images_broken_files)
  have fail: "\<forall>f\<in>set (scan_new_spec broken_files_mtime (modified (previewcache demo_images))
                           (get_images broken_files ''out'')).
                caught_failure (decode broken_files f 2)"
    using fails set_scan_new_spec [of broken_files_mtime "modified (previewcache demo_images)"
        "get_images broken_files ''out''"]
    by (auto simp: get_images_broken_files)
  from load_latest_preview_no_thumbnails [OF path folder listed fail, of "(4, 4)"]
  obtain e self' where
    "load_latest_preview demo_images broken_files 2 (4, 4) = (e, self', broken_files)"
    "e = None"
    "images (previewcache self') = images (previewcache demo_images)"
    "filenames (previewcache self') = filenames (previewcache demo_images)"
    "previewoutput self' = previewoutput demo_images"
    by auto
  then have "\<exists>e self'.
      load_latest_preview demo_images broken_files 2 (4, 4) = (e, self', broken_files) \<and>
      e = None \<and>
      images (previewcache self') = Some [thumb_a, thumb_b, thumb_c] \<and>
      filenames (previewcache self') = [''1.png'', ''2.png'', ''3.png''] \<and>
      previewoutput self' = Some thumb_c"
    by (simp add: demo_images_def full_cache_def)
  with path folder stats fails show ?thesis by blast
qed


lemma map_raise_Inr_elem:
  "map_raise f xs = Inr ys \<Longrightarrow> x \<in> set xs \<Longrightarrow> \<exists>y. f x = Inr y"
  by (induction xs arbitrary: ys) (auto split: sum.splits)

lemma get_newest_filenames_exist:
  assumes "get_newest_filenames fs cache image_files = Inr (retval, cache')"
    and "f \<in> set retval"
  shows "stat fs f \<noteq> None"
proof -
  from assms have "retval \<noteq> []" by auto
  with assms(1) obtain ts where "map_raise (getmtime fs) retval = Inr ts"
    by (auto simp: get_newest_filenames_def split: sum.splits if_splits)
  from map_raise_Inr_elem [OF this assms(2)] show ?thesis
    by (auto simp: getmtime_def split: option.splits)
qed

lemma remove_file_gone:
  assumes "remove_file fs p = Inr fs'"
  shows "stat fs' p = None" and "p \<notin> set (get_images fs' d)"
proof -
  from assms have fs': "fs' = fs\<lparr>dirs := (\<lambda>d. map_option (filter (\<lambda>f. path_join d f \<noteq> p)) (dirs fs d)),
                                stat := (stat fs)(p := None)\<rparr>"
    by (auto simp: remove_file_def split: if_splits)
  show "stat fs' p = None" by (simp add: fs')
  show "p \<notin> set (get_images fs' d)"
    by (auto simp: fs' get_images_def split: option.splits)
qed

lemma place_previews_cache:
  "images (snd (place_previews cache frame_dims)) = images cache"
  "filenames (snd (place_previews cache frame_dims)) = filenames cache"
  "modified (snd (place_previews cache frame_dims)) = modified cache"
  by (simp_all add: place_previews_def Let_def split: option.split list.split sum.split)

lemma display_previews_single:
  assumes "stat fs gui_preview \<noteq> None"
  shows "\<exists>e self' fs'.
           display_previews self fs gui_preview [gui_preview] frame_dims = (e, self', fs') \<and>
           remove_file fs gui_preview = Inr fs' \<and>
           images (previewcache self') = images (previewcache self) \<and>
           filenames (previewcache self') = filenames (previewcache self)"
proof -
  from assms obtain fs' where rm: "remove_file fs gui_preview = Inr fs'"
    by (auto simp: remove_file_def)
  obtain r cache' where pp: "place_previews (previewcache self) frame_dims = (r, cache')"
    by (cases "place_previews (previewcache self) frame_dims")
  from place_previews_cache [of "previewcache self" frame_dims] pp
  have keep: "images cache' = images (previewcache self)"
    "filenames cache' = filenames (previewcache self)"
    by auto
  show ?thesis
    using rm pp keep
    by (auto simp: display_previews_def split: sum.splits option.splits)
qed

lemma load_latest_preview_single:
  assumes path: "pathoutput self = Some pathout"
    and folder: "(if batch_mode self then get_newest_folder fs pathout else Inr pathout) =
                   Inr image_path"
    and present: "path_join pathout ''.gui_preview.jpg'' \<in> set (get_images fs image_path)"
  shows "load_latest_preview self fs thumbnail_size frame_dims =
           refresh_previews self fs (path_join pathout ''.gui_preview.jpg'')
             [path_join pathout ''.gui_preview.jpg''] thumbnail_size frame_dims"
proof -
  from present have "get_images fs image_path \<noteq> []" by auto
  with present show ?thesis
    unfolding load_latest_preview_choice [OF path folder] Let_def by simp
qed

text \<open>
  Claim C3. When the reserved file \<^verbatim>\<open>.gui_preview.jpg\<close> of the output folder is among
  the image files found, the refresh goes on with that file alone; and when the scan
  returns it and \<^verbatim>\<open>_load_images_to_cache\<close> returns \<open>True\<close> for it, the file is
  removed from the disk: it has no time stamps and no listing names it afterwards,
  while the cache keeps what the load stored.
\<close>

theorem load_latest_preview_single_preview:
  fixes pathout :: path
  defines "gui_preview \<equiv> path_join pathout ''.gui_preview.jpg''"
  assumes path: "pathoutput self = Some pathout"
    and folder: "(if batch_mode self then get_newest_folder fs pathout else Inr pathout) =
                   Inr image_path"
    and present: "gui_preview \<in> set (get_images fs image_path)"
  shows "load_latest_preview self fs thumbnail_size frame_dims =
           refresh_previews self fs gui_preview [gui_preview] thumbnail_size frame_dims \<and>
         (\<forall>c1 c2.
            get_newest_filenames fs (previewcache self) [gui_preview] =
              Inr ([gui_preview], c1) \<and>
            load_images_to_cache fs c1 [gui_preview] frame_dims thumbnail_size =
              Inr (True, c2) \<longrightarrow>
            (\<exists>e self' fs'.
               load_latest_preview self fs thumbnail_size frame_dims = (e, self', fs') \<and>
               remove_file fs gui_preview = Inr fs' \<and>
               stat fs' gui_preview = None \<and>
               gui_preview \<notin> set (get_images fs' image_path) \<and>
               images (previewcache self') = images c2 \<and>
               filenames (previewcache self') = filenames c2))"
proof (intro conjI allI impI)
  show single: "load_latest_preview self fs thumbnail_size frame_dims =
      refresh_previews self fs gui_preview [gui_preview] thumbnail_size frame_dims"
    using load_latest_preview_single [OF path folder present [unfolded gui_preview_def]]
    by (simp add: gui_preview_def)
  fix c1 c2
  assume loaded: "get_newest_filenames fs (previewcache self) [gui_preview] =
                    Inr ([gui_preview], c1) \<and>
                  load_images_to_cache fs c1 [gui_preview] frame_dims thumbnail_size =
                    Inr (True, c2)"
  then have exist: "stat fs gui_preview \<noteq> None"
    using get_newest_filenames_exist [of fs "previewcache self" "[gui_preview]"
        "[gui_preview]" c1 gui_preview]
    by simp
  from loaded have refresh:
    "refresh_previews self fs gui_preview [gui_preview] thumbnail_size frame_dims =
       display_previews (self\<lparr>previewcache := c2\<rparr>) fs gui_preview [gui_preview] frame_dims"
    by (simp add: refresh_previews_def)
  from display_previews_single [OF exist, of "self\<lparr>previewcache := c2\<rparr>" frame_dims]
  obtain e self' fs' where shown:
    "display_previews (self\<lparr>previewcache := c2\<rparr>) fs gui_preview [gui_preview] frame_dims =
       (e, self', fs')"
    "remove_file fs gui_preview = Inr fs'"
    "images (previewcache self') = images c2"
    "filenames (previewcache self') = filenames c2"
    by auto
  show "\<exists>e self' fs'.
          load_latest_preview self fs thumbnail_size frame_dims = (e, self', fs') \<and>
          remove_file fs gui_preview = Inr fs' \<and>
          stat fs' gui_preview = None \<and>
          gui_preview \<notin> set (get_images fs' image_path) \<and>
          images (previewcache self') = images c2 \<and>
          filenames (previewcache self') = filenames c2"
    using single refresh shown remove_file_gone [OF shown(2)] by auto
qed

lemma get_images_preview_files:
  "get_images preview_files ''out'' = [''out/a.png'', ''out/.gui_preview.jpg'', ''out/b.JPG'']"
  by code_simp

lemma path_join_out: "path_join ''out'' ''.gui_preview.jpg'' = ''out/.gui_preview.jpg''"
  by (simp add: path_join_def)

theorem load_latest_preview_single_preview_witness:
  "pathoutput demo_images = Some ''out'' \<and>
   (if batch_mode demo_images then get_newest_folder preview_files ''out'' else Inr ''out'') =
     Inr ''out'' \<and>
   path_join ''out'' ''.gui_preview.jpg'' \<in> set (get_images preview_files ''out'') \<and>
   get_newest_filenames preview_files (previewcache demo_images) [''out/.gui_preview.jpg''] =
     Inr ([''out/.gui_preview.jpg''], full_cache\<lparr>modified := Some 12\<rparr>) \<and>
   load_images_to_cache preview_files (full_cache\<lparr>modified := Some 12\<rparr>)
       [''out/.gui_preview.jpg''] (4, 4) 2 =
     Inr (True, full_cache\<lparr>modified := Some 12,
                  filenames := [''1.png'', ''2.png'', ''3.png'', ''out/.gui_preview.jpg''],
                  images := Some [thumb_a, thumb_b, thumb_c, thumb_b]\<rparr>) \<and>
   (\<exists>e self' fs'.
      load_latest_preview demo_images preview_files 2 (4, 4) = (e, self', fs') \<and>
      stat fs' ''out/.gui_preview.jpg'' = None \<and>
      ''out/.gui_preview.jpg'' \<notin> set (get_images fs' ''out'') \<and>
      images (previewcache self') = Some [thumb_a, thumb_b, thumb_c, thumb_b] \<and>
      filenames (previewcache self') =
        [''1.png'', ''2.png'', ''3.png'', ''out/.gui_preview.jpg''])"
proof -
  have path: "pathoutput demo_images = Some ''out''"
    and folder: "(if batch_mode demo_images then get_newest_folder preview_files ''out''
                  else Inr ''out'') = Inr ''out''"
    by (simp_all add: demo_images_def)
  have present: "path_join ''out'' ''.gui_preview.jpg'' \<in> set (get_images preview_files ''out'')"
    by (simp add: get_images_preview_files path_join_out)
  have scan: "get_newest_filenames preview_files (previewcache demo_images)
                [''out/.gui_preview.jpg''] =
              Inr ([''out/.gui_preview.jpg''], full_cache\<lparr>modified := Some 12\<rparr>)"
    by (simp add: get_newest_filenames_def demo_images_def full_cache_def getmtime_def
        preview_files_def py_max_def)
  have load: "load_images_to_cache preview_files (full_cache\<lparr>modified := Some 12\<rparr>)
                [''out/.gui_preview.jpg''] (4, 4) 2 =
              Inr (True, full_cache\<lparr>modified := Some 12,
                    filenames := [''1.png'', ''2.png'', ''3.png'', ''out/.gui_preview.jpg''],
                    images := Some [thumb_a, thumb_b, thumb_c, thumb_b]\<rparr>)"
    by (simp add: load_images_to_cache_def num_images_def sorted_by_ctime_def getctime_def
        preview_files_def process_samples_def np_array_def np_concatenate_def shape_def
        width_def np_any_def thumb_a_def thumb_b_def full_cache_def slice_last_def)
  from load_latest_preview_single_preview [OF path folder present,
      of 2 "(4, 4)", THEN conjunct2, rule_format, OF conjI,
      unfolded path_join_out, OF scan load]
  obtain e self' fs' where
    "load_latest_preview demo_images preview_files 2 (4, 4) = (e, self', fs')"
    "stat fs' ''out/.gui_preview.jpg'' = None"
    "''out/.gui_preview.jpg'' \<notin> set (get_images fs' ''out'')"
    "images (previewcache self') = Some [thumb_a, thumb_b, thumb_c, thumb_b]"
    "filenames (previewcache self') = [''1.png'', ''2.png'', ''3.png'', ''out/.gui_preview.jpg'']"
    by (auto simp: full_cache_def)
  then have "\<exists>e self' fs'.
      load_latest_preview demo_images preview_files 2 (4, 4) = (e, self', fs') \<and>
      stat fs' ''out/.gui_preview.jpg'' = None \<and>
      ''out/.gui_preview.jpg'' \<notin> set (get_images fs' ''out'') \<and>
      images (previewcache self') = Some [thumb_a, thumb_b, thumb_c, thumb_b] \<and>
      filenames (previewcache self') =
        [''1.png'', ''2.png'', ''3.png'', ''out/.gui_preview.jpg'']"
    by blast
  with path folder present scan load show ?thesis by blast
qed


lemma refresh_previews_failed_preview:
  assumes exist: "stat fs gui_preview = Some (t, c)"
    and new: "case modified (previewcache self) of None \<Rightarrow> True | Some m \<Rightarrow> m < t"
    and fail: "caught_failure (decode fs gui_preview thumbnail_size)"
    and size: "thumbnail_size \<noteq> 0"
  shows "get_newest_filenames fs (previewcache self) [gui_preview] =
           Inr ([gui_preview], (previewcache self)\<lparr>modified := Some t\<rparr>)"
    and "refresh_previews self fs gui_preview [gui_preview] thumbnail_size frame_dims =
           (None, self\<lparr>previewcache := (previewcache self)\<lparr>modified := None\<rparr>\<rparr>, fs)"
proof -
  have mtimes: "\<forall>f\<in>set [gui_preview]. getmtime fs f = Inr ((\<lambda>_. t) f)"
    using exist by (simp add: getmtime_def)
  have new': "scan_new_spec (\<lambda>_. t) (modified (previewcache self)) [gui_preview] = [gui_preview]"
    using new by (simp add: scan_new_spec_def split: option.splits)
  show scan: "get_newest_filenames fs (previewcache self) [gui_preview] =
                Inr ([gui_preview], (previewcache self)\<lparr>modified := Some t\<rparr>)"
    using get_newest_filenames_eq [OF mtimes, of "previewcache self"] by (simp add: new')
  have "load_images_to_cache fs ((previewcache self)\<lparr>modified := Some t\<rparr>) [gui_preview]
          frame_dims thumbnail_size = Inr (False, (previewcache self)\<lparr>modified := Some t\<rparr>)"
    using load_images_to_cache_none_loaded [of thumbnail_size "[gui_preview]" fs] size exist fail
    by simp
  then show "refresh_previews self fs gui_preview [gui_preview] thumbnail_size frame_dims =
           (None, self\<lparr>previewcache := (previewcache self)\<lparr>modified := None\<rparr>\<rparr>, fs)"
    by (simp add: refresh_previews_def scan)
qed

text \<open>
  Claim C4. When the reserved preview file is among the image files, is new and fails
  to load in one of the caught ways, the refresh ends without an exception with the
  watermark unset and everything else as it was; the next scan returns the file again,
  and the next refresh tries it again.
\<close>

theorem load_latest_preview_retries_preview:
  fixes pathout :: path and self :: gui_images
  defines "gui_preview \<equiv> path_join pathout ''.gui_preview.jpg''"
  defines "reset \<equiv> self\<lparr>previewcache := (previewcache self)\<lparr>modified := None\<rparr>\<rparr>"
  assumes path: "pathoutput self = Some pathout"
    and folder: "(if batch_mode self then get_newest_folder fs pathout else Inr pathout) =
                   Inr image_path"
    and present: "gui_preview \<in> set (get_images fs image_path)"
    and exist: "stat fs gui_preview = Some (t, c)"
    and new: "case modified (previewcache self) of None \<Rightarrow> True | Some m \<Rightarrow> m < t"
    and fail: "caught_failure (decode fs gui_preview thumbnail_size)"
    and size: "thumbnail_size \<noteq> 0"
  shows "load_latest_preview self fs thumbnail_size frame_dims = (None, reset, fs) \<and>
         modified (previewcache reset) = None \<and>
         get_newest_filenames fs (previewcache reset) [gui_preview] =
           Inr ([gui_preview], (previewcache reset)\<lparr>modified := Some t\<rparr>) \<and>
         load_latest_preview reset fs thumbnail_size frame_dims = (None, reset, fs)"
proof -
  have path': "pathoutput reset = Some pathout"
    and folder': "(if batch_mode reset then get_newest_folder fs pathout else Inr pathout) =
                    Inr image_path"
    and new': "case modified (previewcache reset) of None \<Rightarrow> True | Some m \<Rightarrow> m < t"
    using path folder by (simp_all add: reset_def)
  have first: "load_latest_preview self fs thumbnail_size frame_dims = (None, reset, fs)"
    using load_latest_preview_single [OF path folder present [unfolded gui_preview_def]]
      refresh_previews_failed_preview(2) [OF exist new fail size]
    by (simp add: gui_preview_def reset_def)
  have again: "load_latest_preview reset fs thumbnail_size frame_dims = (None, reset, fs)"
    using load_latest_preview_single [OF path' folder' present [unfolded gui_preview_def]]
      refresh_previews_failed_preview(2) [OF exist new' fail size]
    by (simp add: gui_preview_def reset_def)
  show ?thesis
    using first again refresh_previews_failed_preview(1) [OF exist new' fail size]
    by (simp add: reset_def)
qed

theorem load_latest_preview_retries_preview_witness:
  "pathoutput demo_images = Some ''out'' \<and>
   (if batch_mode demo_images then get_newest_folder broken_preview ''out'' else Inr ''out'') =
     Inr ''out'' \<and>
   path_join ''out'' ''.gui_preview.jpg'' \<in> set (get_images broken_preview ''out'') \<and>
   stat broken_preview (path_join ''out'' ''.gui_preview.jpg'') = Some (12, 12) \<and>
   (case modified (previewcache demo_images) of None \<Rightarrow> True | Some m \<Rightarrow> m < 12) \<and>
   caught_failure (decode broken_preview (path_join ''out'' ''.gui_preview.jpg'') 2) \<and>
   (2::int) \<noteq> 0 \<and>
   load_latest_preview demo_images broken_preview 2 (4, 4) =
     (None, demo_images\<lparr>previewcache := full_cache\<lparr>modified := None\<rparr>\<rparr>, broken_preview) \<and>
   get_newest_filenames broken_preview (full_cache\<lparr>modified := None\<rparr>)
       [''out/.gui_preview.jpg''] =
     Inr ([''out/.gui_preview.jpg''], full_cache\<lparr>modified := Some 12\<rparr>)"
proof -
  have dirs: "get_images broken_preview ''out'' = get_images preview_files ''out''"
    by (simp add: get_images_def broken_preview_def)
  have present: "path_join ''out'' ''.gui_preview.jpg'' \<in> set (get_images broken_preview ''out'')"
    by (simp add: dirs get_images_preview_files path_join_out)
  have path: "pathoutput demo_images = Some ''out''"
    and folder: "(if batch_mode demo_images then get_newest_folder broken_preview ''out''
                  else Inr ''out'') = Inr ''out''"
    and exist: "stat broken_preview (path_join ''out'' ''.gui_preview.jpg'') = Some (12, 12)"
    and new: "case modified (previewcache demo_images) of None \<Rightarrow> True | Some m \<Rightarrow> m < 12"
    and fail: "caught_failure (decode broken_preview (path_join ''out'' ''.gui_preview.jpg'') 2)"
    and size: "(2::int) \<noteq> 0"
    by (simp_all add: demo_images_def path_join_out
        broken_preview_def preview_files_def full_cache_def caught_failure_def
        isinstance_PermissionError_def)
  show ?thesis
    using load_latest_preview_retries_preview [OF path folder present exist new fail size,
        of "(4, 4)"]
      path folder present exist new fail
    by (simp add: path_join_out demo_images_def)
qed


subsection \<open>The grid\<close>

lemma nth_concat_uniform:
  "\<forall>l\<in>set xss. length l = n \<Longrightarrow> i < length xss \<Longrightarrow> j < n \<Longrightarrow>
   concat xss ! (i * n + j) = xss ! i ! j"
proof (induction xss arbitrary: i)
  case Nil
  then show ?case by simp
next
  case (Cons xs xss)
  show ?case
  proof (cases i)
    case 0
    with Cons.prems show ?thesis by (simp add: nth_append)
  next
    case (Suc k)
    with Cons.prems have "concat xss ! (k * n + j) = xss ! k ! j"
      by (intro Cons.IH) simp_all
    with Suc Cons.prems show ?thesis by (simp add: nth_append)
  qed
qed

lemma length_concat_uniform:
  "\<forall>l\<in>set xss. length l = n \<Longrightarrow> length (concat xss) = length xss * n"
  by (induction xss) simp_all

lemma hstack_eq:
  assumes "tiles \<noteq> []" and "\<forall>u\<in>set tiles. length u = n"
  shows "hstack tiles = Inr (map (\<lambda>y. concat (map (\<lambda>u. u ! y) tiles)) [0..<n])"
  using assms by (cases tiles) (auto simp: hstack_def)

lemma vstack_eq:
  assumes "strips \<noteq> []" and "\<forall>u\<in>set strips. width u = m"
  shows "vstack strips = Inr (concat strips)"
  using assms by (cases strips) (auto simp: vstack_def)

lemma square_create_placeholder: "square n (create_placeholder (int n))"
  by (simp add: square_def create_placeholder_def)

lemma slice_row:
  assumes "length xs = rows * cols" and "r < rows"
  shows "length (slice (r * cols) ((r + 1) * cols) xs) = cols"
    and "c < cols \<Longrightarrow> slice (r * cols) ((r + 1) * cols) xs ! c = xs ! (r * cols + c)"
proof -
  have le: "(r + 1) * cols \<le> rows * cols"
    using assms(2) by (intro mult_le_mono1) simp
  then show len: "length (slice (r * cols) ((r + 1) * cols) xs) = cols"
    using assms(1) by (simp add: slice_def min_def)
  show "slice (r * cols) ((r + 1) * cols) xs ! c = xs ! (r * cols + c)" if "c < cols"
    using that le assms(1) by (simp add: slice_def)
qed

lemma set_slice_subset: "set (slice lo hi xs) \<subseteq> set xs"
  unfolding slice_def
  using set_drop_subset [of lo "take hi xs"] set_take_subset [of hi xs] by blast

lemma stack_grid:
  fixes padded :: "thumbnail list"
  defines "strip \<equiv> \<lambda>cols n r. map (\<lambda>y. concat (map (\<lambda>u. u ! y)
                       (slice (r * cols) ((r + 1) * cols) padded))) [0..<n]"
  assumes sq: "\<forall>u\<in>set padded. square n u"
    and len: "length padded = rows * cols"
    and pos: "0 < n" "0 < cols" "0 < rows"
  shows "map_raise (\<lambda>row. hstack (slice (row * cols) ((row + 1) * cols) padded)) [0..<rows] =
           Inr (map (strip cols n) [0..<rows])"
    and "vstack (map (strip cols n) [0..<rows]) = Inr (concat (map (strip cols n) [0..<rows]))"
    and "length (concat (map (strip cols n) [0..<rows])) = rows * n"
    and "\<lbrakk>r < rows; c < cols; y < n; x < n\<rbrakk> \<Longrightarrow>
           concat (map (strip cols n) [0..<rows]) ! (r * n + y) ! (c * n + x) =
             padded ! (r * cols + c) ! y ! x"
proof -
  let ?tiles = "\<lambda>r. slice (r * cols) ((r + 1) * cols) padded"
  have tiles_sq: "\<forall>u\<in>set (?tiles r). square n u" for r
    using sq set_slice_subset [of "r * cols" "(r + 1) * cols" padded] by blast
  have tiles_len: "length (?tiles r) = cols" if "r < rows" for r
    using slice_row(1) [OF len that] .
  have tiles_nth: "?tiles r ! c = padded ! (r * cols + c)" if "r < rows" "c < cols" for r c
    using slice_row(2) [OF len that] .
  have hs: "hstack (?tiles r) = Inr (strip cols n r)" if "r < rows" for r
  proof -
    have "?tiles r \<noteq> []" using tiles_len [OF that] pos by auto
    moreover have "\<forall>u\<in>set (?tiles r). length u = n"
      using tiles_sq [of r] by (simp add: square_def)
    ultimately show ?thesis
      using hstack_eq [of "?tiles r" n] by (simp add: strip_def)
  qed
  show rows_ok: "map_raise (\<lambda>row. hstack (?tiles row)) [0..<rows] =
                   Inr (map (strip cols n) [0..<rows])"
  proof (rule map_raise_Inr, rule ballI)
    fix r assume "r \<in> set [0..<rows]"
    then have "r < rows" by simp
    then show "hstack (?tiles r) = Inr (strip cols n r)" by (rule hs)
  qed
  have strip_len: "length (strip cols n r) = n" for r
    by (simp add: strip_def)
  have row_len: "length (concat (map (\<lambda>u. u ! y) (?tiles r))) = cols * n"
    if "r < rows" "y < n" for r y
  proof -
    have "\<forall>l\<in>set (map (\<lambda>u. u ! y) (?tiles r)). length l = n"
      using tiles_sq [of r] that(2) by (auto simp: square_def)
    from length_concat_uniform [OF this] tiles_len [OF that(1)] show ?thesis
      by simp
  qed
  have strip_width: "width (strip cols n r) = cols * n" if "r < rows" for r
  proof -
    have "strip cols n r = concat (map (\<lambda>u. u ! 0) (?tiles r)) #
            map (\<lambda>y. concat (map (\<lambda>u. u ! y) (?tiles r))) [1..<n]"
      using pos(1) by (simp add: strip_def upt_conv_Cons)
    then show ?thesis
      using row_len [OF that pos(1)] by (simp add: width_def)
  qed
  show "vstack (map (strip cols n) [0..<rows]) = Inr (concat (map (strip cols n) [0..<rows]))"
  proof (rule vstack_eq)
    show "map (strip cols n) [0..<rows] \<noteq> []" using pos by simp
    show "\<forall>u\<in>set (map (strip cols n) [0..<rows]). width u = cols * n"
      using strip_width by auto
  qed
  have uniform: "\<forall>l\<in>set (map (strip cols n) [0..<rows]). length l = n"
    using strip_len by simp
  show "length (concat (map (strip cols n) [0..<rows])) = rows * n"
    using length_concat_uniform [OF uniform] by simp
  show "concat (map (strip cols n) [0..<rows]) ! (r * n + y) ! (c * n + x) =
          padded ! (r * cols + c) ! y ! x"
    if "r < rows" "c < cols" "y < n" "x < n"
  proof -
    have "concat (map (strip cols n) [0..<rows]) ! (r * n + y) =
            map (strip cols n) [0..<rows] ! r ! y"
      using that by (intro nth_concat_uniform [OF uniform]) simp_all
    also have "\<dots> = concat (map (\<lambda>u. u ! y) (?tiles r))"
      using that by (simp add: strip_def)
    finally have row: "concat (map (strip cols n) [0..<rows]) ! (r * n + y) =
                         concat (map (\<lambda>u. u ! y) (?tiles r))" .
    have cells: "\<forall>l\<in>set (map (\<lambda>u. u ! y) (?tiles r)). length l = n"
      using tiles_sq [of r] that(3) by (auto simp: square_def)
    have "concat (map (\<lambda>u. u ! y) (?tiles r)) ! (c * n + x) =
            map (\<lambda>u. u ! y) (?tiles r) ! c ! x"
      using that tiles_len [OF that(1)]
      by (intro nth_concat_uniform [OF cells]) simp_all
    also have "\<dots> = padded ! (r * cols + c) ! y ! x"
      using that tiles_len [OF that(1)] tiles_nth [OF that(1,2)] by simp
    finally show ?thesis using row by simp
  qed
qed


lemma place_previews_compose:
  assumes "images cache = Some samples"
    and "samples \<noteq> []"
    and "int (length (hd samples)) = ts"
    and "ts \<noteq> 0"
    and "fst frame_dims div ts = cols" and "snd frame_dims div ts = rows"
    and "cols \<noteq> 0" and "rows \<noteq> 0"
    and "\<not> cols * rows - int (length samples) < 0"
    and "(case placeholder cache of None \<Rightarrow> create_placeholder ts | Some p \<Rightarrow> p) = blank"
    and "(if cols * rows - int (length samples) \<noteq> 0
          then samples @ replicate (nat (cols * rows - int (length samples))) blank
          else samples) = padded"
  shows "place_previews cache frame_dims =
           (case map_raise (\<lambda>row. hstack (slice (row * nat cols) ((row + 1) * nat cols) padded))
                   [0..<nat rows] of
              Inl e \<Rightarrow> (Inl e, cache\<lparr>placeholder := Some blank\<rparr>)
            | Inr strips \<Rightarrow>
                (case vstack strips of
                   Inl e \<Rightarrow> (Inl e, cache\<lparr>placeholder := Some blank\<rparr>)
                 | Inr display \<Rightarrow> (Inr (Some display), cache\<lparr>placeholder := Some blank\<rparr>)))"
  unfolding place_previews_def Let_def
  by (simp only: assms option.case list.case_eq_if if_False simp_thms)

lemma place_previews_padded:
  fixes n :: nat and w h :: int
  defines "cols \<equiv> nat (w div int n)" and "rows \<equiv> nat (h div int n)"
  assumes imgs: "images cache = Some samples"
    and blank: "(case placeholder cache of
                   None \<Rightarrow> create_placeholder (int n) | Some p \<Rightarrow> p) = blank"
    and sq: "\<forall>u\<in>set samples. square n u"
    and sqb: "square n blank"
    and pos: "0 < n"
    and nonempty: "samples \<noteq> []"
    and fits: "length samples \<le> cols * rows"
  shows "\<exists>display.
           place_previews cache (w, h) =
             (Inr (Some display), cache\<lparr>placeholder := Some blank\<rparr>) \<and>
           length display = rows * n \<and>
           (\<forall>r<rows. \<forall>c<cols. \<forall>y<n. \<forall>x<n.
              display ! (r * n + y) ! (c * n + x) =
                (if r * cols + c < length samples then samples ! (r * cols + c) else blank)
                  ! y ! x)"
proof -
  let ?padded = "samples @ replicate (cols * rows - length samples) blank"
  have first: "int (length (hd samples)) = int n"
    using sq nonempty by (cases samples) (simp_all add: square_def)
  have "0 < length samples" using nonempty by simp
  with fits have "0 < cols * rows" by linarith
  then have cpos: "0 < cols" and rpos: "0 < rows" by simp_all
  then have wpos: "0 < w div int n" and hpos: "0 < h div int n"
    by (simp_all add: cols_def rows_def)
  have prod: "(w div int n) * (h div int n) = int (cols * rows)"
    using wpos hpos by (simp add: cols_def rows_def)
  have rem: "(w div int n) * (h div int n) - int (length samples) =
             int (cols * rows - length samples)"
    using fits by (simp add: prod)
  have pad_gen: "(if int k \<noteq> 0 then xs @ replicate (nat (int k)) blank else xs) =
                 xs @ replicate k blank" for k and xs :: "thumbnail list"
    by simp
  have pad: "(if (w div int n) * (h div int n) - int (length samples) \<noteq> 0
              then samples @
                   replicate (nat ((w div int n) * (h div int n) - int (length samples))) blank
              else samples) = ?padded"
    unfolding rem by (rule pad_gen)
  have compose: "place_previews cache (w, h) =
      (case map_raise (\<lambda>row. hstack (slice (row * cols) ((row + 1) * cols) ?padded))
              [0..<rows] of
         Inl e \<Rightarrow> (Inl e, cache\<lparr>placeholder := Some blank\<rparr>)
       | Inr strips \<Rightarrow>
           (case vstack strips of
              Inl e \<Rightarrow> (Inl e, cache\<lparr>placeholder := Some blank\<rparr>)
            | Inr display \<Rightarrow> (Inr (Some display), cache\<lparr>placeholder := Some blank\<rparr>)))"
  proof -
    have a: "int n \<noteq> 0" using pos by simp
    have b: "fst (w, h) div int n = w div int n" "snd (w, h) div int n = h div int n"
      by simp_all
    have c: "w div int n \<noteq> 0" "h div int n \<noteq> 0" using wpos hpos by simp_all
    have d: "\<not> (w div int n) * (h div int n) - int (length samples) < 0"
      unfolding rem by simp
    show ?thesis
      using place_previews_compose [OF imgs nonempty first a b c d blank pad]
      by (simp only: cols_def rows_def)
  qed
  have psq: "\<forall>u\<in>set ?padded. square n u"
    using sq sqb by auto
  have plen: "length ?padded = rows * cols"
    using fits by (simp add: mult.commute)
  note grid = stack_grid [OF psq plen pos cpos rpos]
  let ?display = "concat (map (\<lambda>r. map (\<lambda>y. concat (map (\<lambda>u. u ! y)
      (slice (r * cols) ((r + 1) * cols) ?padded))) [0..<n]) [0..<rows])"
  have "place_previews cache (w, h) = (Inr (Some ?display), cache\<lparr>placeholder := Some blank\<rparr>)"
    by (simp only: compose grid(1) grid(2) sum.case)
  moreover have "length ?display = rows * n"
    by (rule grid(3))
  moreover have "?display ! (r * n + y) ! (c * n + x) =
      (if r * cols + c < length samples then samples ! (r * cols + c) else blank) ! y ! x"
    if "r < rows" "c < cols" "y < n" "x < n" for r c y x
  proof -
    have bound: "r * cols + c < rows * cols"
    proof -
      have "r * cols + c < r * cols + cols" using that(2) by simp
      also have "\<dots> = (r + 1) * cols" by simp
      also have "\<dots> \<le> rows * cols" using that(1) by (intro mult_le_mono1) simp
      finally show ?thesis .
    qed
    have "?padded ! (r * cols + c) =
            (if r * cols + c < length samples then samples ! (r * cols + c) else blank)"
      using bound fits by (simp add: nth_append mult.commute)
    then show ?thesis using grid(4) [OF that] by simp
  qed
  ultimately show ?thesis by blast
qed


lemma place_previews_snd:
  "snd (place_previews cache frame_dims) =
     (case images cache of
        None \<Rightarrow> cache
      | Some [] \<Rightarrow> cache
      | Some (first # rest) \<Rightarrow>
          cache\<lparr>placeholder :=
                  Some (case placeholder cache of
                          None \<Rightarrow> create_placeholder (int (length first))
                        | Some p \<Rightarrow> p)\<rparr>)"
  by (simp add: place_previews_def Let_def split: option.split list.split sum.split)

lemma place_previews_fst_placeholder:
  assumes "images cache = Some (first # rest)"
  shows "fst (place_previews (cache\<lparr>placeholder :=
                  Some (case placeholder cache of
                          None \<Rightarrow> create_placeholder (int (length first))
                        | Some p \<Rightarrow> p)\<rparr>) frame_dims) =
         fst (place_previews cache frame_dims)"
  using assms
  by (simp add: place_previews_def Let_def split: sum.split)

lemma place_previews_again:
  "place_previews (snd (place_previews cache frame_dims)) frame_dims =
     place_previews cache frame_dims"
proof (cases "images cache")
  case None
  then show ?thesis by (simp add: place_previews_def)
next
  case (Some samples)
  show ?thesis
  proof (cases samples)
    case Nil
    with Some show ?thesis by (simp add: place_previews_def)
  next
    case (Cons first rest)
    let ?c = "cache\<lparr>placeholder :=
                  Some (case placeholder cache of
                          None \<Rightarrow> create_placeholder (int (length first))
                        | Some p \<Rightarrow> p)\<rparr>"
    have imgs: "images cache = Some (first # rest)" using Some Cons by simp
    have s1: "snd (place_previews cache frame_dims) = ?c"
      by (simp add: place_previews_snd imgs)
    have s2: "snd (place_previews ?c frame_dims) = ?c"
      by (simp add: place_previews_snd imgs)
    have "fst (place_previews ?c frame_dims) = fst (place_previews cache frame_dims)"
      by (rule place_previews_fst_placeholder [OF imgs])
    with s1 s2 show ?thesis by (simp add: prod_eq_iff)
  qed
qed


text \<open>
  Claim C7. For a cache of \<open>k\<close> square thumbnails of size \<open>n\<close> and a panel of
  \<open>cols\<close> by \<open>rows\<close> cells with \<open>0 < k \<le> cols * rows\<close>, the composed image has
  in cell \<open>(r, c)\<close>, pixel by pixel, the thumbnail number \<open>r * cols + c\<close> of the
  cache when there is one and the placeholder otherwise: the thumbnails come first,
  row by row from the left, and the placeholder fills the rest. The placeholder is
  created when the cache has none and kept when it has one, and a second call gives
  the same image with the same placeholder.
\<close>

theorem place_previews_grid:
  fixes n :: nat and w h :: int and cache :: preview_cache
  defines "cols \<equiv> nat (w div int n)" and "rows \<equiv> nat (h div int n)"
  defines "blank \<equiv> (case placeholder cache of
                        None \<Rightarrow> create_placeholder (int n) | Some p \<Rightarrow> p)"
  assumes imgs: "images cache = Some samples"
    and nonempty: "samples \<noteq> []"
    and sq: "\<forall>u\<in>set samples. square n u"
    and ph: "case placeholder cache of None \<Rightarrow> True | Some p \<Rightarrow> square n p"
    and pos: "0 < n"
    and fits: "length samples \<le> cols * rows"
  shows "\<exists>display.
           place_previews cache (w, h) =
             (Inr (Some display), cache\<lparr>placeholder := Some blank\<rparr>) \<and>
           place_previews (cache\<lparr>placeholder := Some blank\<rparr>) (w, h) =
             (Inr (Some display), cache\<lparr>placeholder := Some blank\<rparr>) \<and>
           length display = rows * n \<and>
           (\<forall>r<rows. \<forall>c<cols. \<forall>y<n. \<forall>x<n.
              display ! (r * n + y) ! (c * n + x) =
                (if r * cols + c < length samples then samples ! (r * cols + c) else blank)
                  ! y ! x)"
proof -
  have sqb: "square n blank"
    using ph square_create_placeholder [of n] by (simp add: blank_def split: option.splits)
  have bl: "(case placeholder cache of
               None \<Rightarrow> create_placeholder (int n) | Some p \<Rightarrow> p) = blank"
    by (simp add: blank_def)
  from place_previews_padded [OF imgs bl sq sqb pos nonempty
      fits [unfolded cols_def rows_def]]
  obtain display where d:
    "place_previews cache (w, h) = (Inr (Some display), cache\<lparr>placeholder := Some blank\<rparr>)"
    "length display = rows * n"
    "\<forall>r<rows. \<forall>c<cols. \<forall>y<n. \<forall>x<n.
        display ! (r * n + y) ! (c * n + x) =
          (if r * cols + c < length samples then samples ! (r * cols + c) else blank) ! y ! x"
    unfolding cols_def rows_def by blast
  have "place_previews (snd (place_previews cache (w, h))) (w, h) = place_previews cache (w, h)"
    by (rule place_previews_again)
  with d(1) have "place_previews (cache\<lparr>placeholder := Some blank\<rparr>) (w, h) =
                    (Inr (Some display), cache\<lparr>placeholder := Some blank\<rparr>)"
    by simp
  with d show ?thesis by blast
qed

theorem place_previews_grid_witness:
  "images two_cache = Some [thumb_a, thumb_b] \<and>
   square 2 thumb_a \<and> square 2 thumb_b \<and>
   placeholder two_cache = None \<and>
   length [thumb_a, thumb_b] \<le> nat (4 div int 2) * nat (4 div int 2) \<and>
   (\<exists>display.
      place_previews two_cache (4, 4) =
        (Inr (Some display), two_cache\<lparr>placeholder := Some (create_placeholder 2)\<rparr>) \<and>
      place_previews (two_cache\<lparr>placeholder := Some (create_placeholder 2)\<rparr>) (4, 4) =
        (Inr (Some display), two_cache\<lparr>placeholder := Some (create_placeholder 2)\<rparr>) \<and>
      length display = 4 \<and>
      display ! 0 ! 0 = 1 \<and>
      display ! 1 ! 3 = 8 \<and>
      display ! 2 ! 1 = 15066597 \<and>
      display ! 3 ! 3 = 0)"
proof -
  have imgs: "images two_cache = Some [thumb_a, thumb_b]"
    and none: "placeholder two_cache = None"
    by (simp_all add: two_cache_def)
  have sqa: "square 2 thumb_a" and sqb: "square 2 thumb_b"
    by (simp_all add: square_def thumb_a_def thumb_b_def)
  have nonempty: "[thumb_a, thumb_b] \<noteq> []" by simp
  have sq: "\<forall>u\<in>set [thumb_a, thumb_b]. square 2 u" using sqa sqb by simp
  have ph: "case placeholder two_cache of None \<Rightarrow> True | Some p \<Rightarrow> square 2 p"
    by (simp add: none)
  have pos: "0 < (2::nat)" by simp
  have fits: "length [thumb_a, thumb_b] \<le> nat (4 div int 2) * nat (4 div int 2)" by simp
  from place_previews_grid [OF imgs nonempty sq ph pos fits]
  obtain display where d:
    "place_previews two_cache (4, 4) =
       (Inr (Some display), two_cache\<lparr>placeholder := Some (create_placeholder 2)\<rparr>)"
    "place_previews (two_cache\<lparr>placeholder := Some (create_placeholder 2)\<rparr>) (4, 4) =
       (Inr (Some display), two_cache\<lparr>placeholder := Some (create_placeholder 2)\<rparr>)"
    "length display = 4"
    "\<forall>r<2. \<forall>c<2. \<forall>y<2. \<forall>x<2.
        display ! (r * 2 + y) ! (c * 2 + x) =
          (if r * 2 + c < 2 then [thumb_a, thumb_b] ! (r * 2 + c) else create_placeholder 2)
            ! y ! x"
    by (auto simp: none)
  have blank: "create_placeholder 2 = [[15066597, 15066597], [15066597, 0]]"
  proof -
    have "[0..<2] = [0, Suc 0]" by (simp add: upt_rec numeral_2_eq_2)
    then show ?thesis by (simp add: create_placeholder_def)
  qed
  have cells: "display ! 0 ! 0 = 1" "display ! 1 ! 3 = 8"
    "display ! 2 ! 1 = 15066597" "display ! 3 ! 3 = 0"
    using d(4) [rule_format, of 0 0 0 0] d(4) [rule_format, of 0 1 1 1]
      d(4) [rule_format, of 1 0 0 1] d(4) [rule_format, of 1 1 1 1]
    by (simp_all add: blank thumb_a_def thumb_b_def)
  from d(1-3) cells have "\<exists>display.
      place_previews two_cache (4, 4) =
        (Inr (Some display), two_cache\<lparr>placeholder := Some (create_placeholder 2)\<rparr>) \<and>
      place_previews (two_cache\<lparr>placeholder := Some (create_placeholder 2)\<rparr>) (4, 4) =
        (Inr (Some display), two_cache\<lparr>placeholder := Some (create_placeholder 2)\<rparr>) \<and>
      length display = 4 \<and>
      display ! 0 ! 0 = 1 \<and>
      display ! 1 ! 3 = 8 \<and>
      display ! 2 ! 1 = 15066597 \<and>
      display ! 3 ! 3 = 0"
    by blast
  with imgs sqa sqb none fits show ?thesis by blast
qed


subsection \<open>The capacity of the panel\<close>

lemma num_images_zero_iff:
  assumes "0 \<le> w" "0 \<le> h" "0 < t"
  shows "num_images (w, h) t = 0 \<longleftrightarrow> w < t \<or> h < t"
proof -
  have "w div t = 0 \<longleftrightarrow> w < t" "h div t = 0 \<longleftrightarrow> h < t"
    using assms pos_imp_zdiv_pos_iff [of t w] pos_imp_zdiv_pos_iff [of t h]
      pos_imp_zdiv_nonneg_iff [of t w] pos_imp_zdiv_nonneg_iff [of t h]
    by auto
  then show ?thesis by (simp add: num_images_def)
qed

lemma load_images_to_cache_no_room:
  "thumbnail_size \<noteq> 0 \<Longrightarrow> num_images frame_dims thumbnail_size = 0 \<Longrightarrow>
   load_images_to_cache fs cache image_files frame_dims thumbnail_size = Inr (False, cache)"
  by (simp add: load_images_to_cache_def)

lemma place_previews_no_room:
  assumes "cache_of_size cache t" and "t \<noteq> 0"
    and "fst frame_dims div t = 0 \<or> snd frame_dims div t = 0"
  shows "fst (place_previews cache frame_dims) = Inr None"
  using assms
  by (auto simp: place_previews_def cache_of_size_def Let_def split: option.splits list.splits)

lemma refresh_previews_no_room:
  assumes size: "thumbnail_size \<noteq> 0"
    and room: "num_images frame_dims thumbnail_size = 0"
    and listed: "\<forall>f\<in>set image_files. stat fs f \<noteq> None"
  shows "\<exists>self'.
           refresh_previews self fs gui_preview image_files thumbnail_size frame_dims =
             (None, self', fs) \<and>
           previewoutput self' = previewoutput self \<and>
           images (previewcache self') = images (previewcache self) \<and>
           filenames (previewcache self') = filenames (previewcache self)"
proof -
  let ?mt = "\<lambda>f. fst (the (stat fs f))"
  have mtimes: "\<forall>f\<in>set image_files. getmtime fs f = Inr (?mt f)"
    using listed by (auto simp: getmtime_def)
  show ?thesis
    unfolding refresh_previews_def get_newest_filenames_eq [OF mtimes]
    by (simp add: load_images_to_cache_no_room [OF size room])
qed

lemma display_previews_no_room:
  assumes fit: "cache_of_size (previewcache self) t" and size: "t \<noteq> 0"
    and room: "fst frame_dims div t = 0 \<or> snd frame_dims div t = 0"
    and exist: "image_files = [gui_preview] \<longrightarrow> stat fs gui_preview \<noteq> None"
  shows "\<exists>self' fs'.
           display_previews self fs gui_preview image_files frame_dims = (None, self', fs') \<and>
           previewoutput self' = None"
proof -
  have "\<exists>fs'. (if image_files = [gui_preview] then remove_file fs (hd image_files)
               else Inr fs) = Inr fs'"
  proof (cases "image_files = [gui_preview]")
    case True
    with exist show ?thesis by (simp add: remove_file_def)
  next
    case False
    then show ?thesis by simp
  qed
  then obtain fs' where rm:
    "(if image_files = [gui_preview] then remove_file fs (hd image_files) else Inr fs) = Inr fs'"
    by blast
  obtain r cache' where pp: "place_previews (previewcache self) frame_dims = (r, cache')"
    by (cases "place_previews (previewcache self) frame_dims")
  with place_previews_no_room [OF fit size room] have "r = Inr None" by simp
  with rm pp show ?thesis by (simp add: display_previews_def)
qed


text \<open>
  Claim C6. For a region of non-negative width and height and a positive thumbnail
  size the capacity is the product of the two floor divisions and is not negative;
  it is zero exactly when the region is smaller than a thumbnail in one dimension.
  Then \<^verbatim>\<open>_load_images_to_cache\<close> returns \<open>False\<close> and leaves the cache,
  \<^verbatim>\<open>_place_previews\<close> returns \<open>None\<close> for a cache of thumbnails of that size, and
  the refresh ends without an exception: before the grid with the preview output as
  it was, at the grid with the preview output \<open>None\<close>.
\<close>

theorem num_images_capacity:
  assumes region: "0 \<le> w" "0 \<le> h" and size: "0 < t"
  shows "num_images (w, h) t = (w div t) * (h div t) \<and>
         0 \<le> num_images (w, h) t \<and>
         (num_images (w, h) t = 0 \<longleftrightarrow> w < t \<or> h < t) \<and>
         (w < t \<or> h < t \<longrightarrow>
            load_images_to_cache fs cache image_files (w, h) t = Inr (False, cache) \<and>
            (cache_of_size cache t \<longrightarrow> fst (place_previews cache (w, h)) = Inr None) \<and>
            ((\<forall>f\<in>set image_files. stat fs f \<noteq> None) \<longrightarrow>
               (\<exists>self'.
                  refresh_previews self fs gui_preview image_files t (w, h) =
                    (None, self', fs) \<and>
                  previewoutput self' = previewoutput self \<and>
                  images (previewcache self') = images (previewcache self) \<and>
                  filenames (previewcache self') = filenames (previewcache self))) \<and>
            (cache_of_size (previewcache self) t \<and>
             (image_files = [gui_preview] \<longrightarrow> stat fs gui_preview \<noteq> None) \<longrightarrow>
               (\<exists>self' fs'.
                  display_previews self fs gui_preview image_files (w, h) =
                    (None, self', fs') \<and>
                  previewoutput self' = None)))"
proof -
  have t0: "t \<noteq> 0" using size by simp
  have nonneg: "0 \<le> num_images (w, h) t"
    using region size by (simp add: num_images_def pos_imp_zdiv_nonneg_iff)
  note zero = num_images_zero_iff [OF region size]
  have small: "load_images_to_cache fs cache image_files (w, h) t = Inr (False, cache) \<and>
      (cache_of_size cache t \<longrightarrow> fst (place_previews cache (w, h)) = Inr None) \<and>
      ((\<forall>f\<in>set image_files. stat fs f \<noteq> None) \<longrightarrow>
         (\<exists>self'.
            refresh_previews self fs gui_preview image_files t (w, h) = (None, self', fs) \<and>
            previewoutput self' = previewoutput self \<and>
            images (previewcache self') = images (previewcache self) \<and>
            filenames (previewcache self') = filenames (previewcache self))) \<and>
      (cache_of_size (previewcache self) t \<and>
       (image_files = [gui_preview] \<longrightarrow> stat fs gui_preview \<noteq> None) \<longrightarrow>
         (\<exists>self' fs'.
            display_previews self fs gui_preview image_files (w, h) = (None, self', fs') \<and>
            previewoutput self' = None))"
    if "w < t \<or> h < t"
  proof -
    from that zero have room: "num_images (w, h) t = 0" by simp
    then have room': "fst (w, h) div t = 0 \<or> snd (w, h) div t = 0"
      by (simp add: num_images_def)
    show ?thesis
      using load_images_to_cache_no_room [OF t0 room, of fs cache image_files]
        place_previews_no_room [OF _ t0 room', of cache]
        refresh_previews_no_room [OF t0 room, of image_files fs self gui_preview]
        display_previews_no_room [OF _ t0 room', of self image_files gui_preview fs]
      by blast
  qed
  show ?thesis
    using nonneg zero small by (simp add: num_images_def)
qed


theorem num_images_capacity_witness:
  "(0::int) \<le> 1 \<and> (0::int) \<le> 10 \<and> (0::int) < 2 \<and> ((1::int) < 2 \<or> (10::int) < 2) \<and>
   num_images (1, 10) 2 = 0 \<and>
   load_images_to_cache two_files two_cache [''out/a.png'', ''out/b.JPG''] (1, 10) 2 =
     Inr (False, two_cache) \<and>
   cache_of_size two_cache 2 \<and>
   fst (place_previews two_cache (1, 10)) = Inr None \<and>
   stat two_files ''out/a.png'' \<noteq> None \<and> stat two_files ''out/b.JPG'' \<noteq> None \<and>
   (\<exists>self'.
      refresh_previews (demo_images\<lparr>previewcache := two_cache\<rparr>) two_files
          ''out/.gui_preview.jpg'' [''out/a.png'', ''out/b.JPG''] 2 (1, 10) =
        (None, self', two_files) \<and>
      previewoutput self' = Some thumb_c \<and>
      images (previewcache self') = Some [thumb_a, thumb_b]) \<and>
   (\<exists>self' fs'.
      display_previews (demo_images\<lparr>previewcache := two_cache\<rparr>) two_files
          ''out/.gui_preview.jpg'' [''out/a.png'', ''out/b.JPG''] (1, 10) =
        (None, self', fs') \<and>
      previewoutput self' = None)"
proof -
  have fit: "cache_of_size two_cache 2"
    by (simp add: cache_of_size_def two_cache_def thumb_a_def)
  have fit': "cache_of_size (previewcache (demo_images\<lparr>previewcache := two_cache\<rparr>)) 2"
    using fit by simp
  have exist: "stat two_files ''out/a.png'' \<noteq> None" "stat two_files ''out/b.JPG'' \<noteq> None"
    by (simp_all add: two_files_def)
  then have listed: "\<forall>f\<in>set [''out/a.png'', ''out/b.JPG'']. stat two_files f \<noteq> None"
    by simp
  have other: "[''out/a.png'', ''out/b.JPG''] = [''out/.gui_preview.jpg''] \<longrightarrow>
               stat two_files ''out/.gui_preview.jpg'' \<noteq> None"
    by simp
  have small: "(1::int) < 2 \<or> (10::int) < 2" by simp
  note cap = num_images_capacity [of 1 10 2 two_files two_cache
      "[''out/a.png'', ''out/b.JPG'']" "demo_images\<lparr>previewcache := two_cache\<rparr>"
      "''out/.gui_preview.jpg''", simplified]
  from cap have zero: "num_images (1, 10) 2 = 0"
    and load: "load_images_to_cache two_files two_cache [''out/a.png'', ''out/b.JPG'']
                 (1, 10) 2 = Inr (False, two_cache)"
    and place: "cache_of_size two_cache 2 \<longrightarrow> fst (place_previews two_cache (1, 10)) = Inr None"
    by simp_all
  from cap listed obtain self1 where refresh:
    "refresh_previews (demo_images\<lparr>previewcache := two_cache\<rparr>) two_files
        ''out/.gui_preview.jpg'' [''out/a.png'', ''out/b.JPG''] 2 (1, 10) =
       (None, self1, two_files)"
    "previewoutput self1 = previewoutput demo_images"
    "images (previewcache self1) = images two_cache"
    by auto
  from cap fit obtain self2 fs2 where display:
    "display_previews (demo_images\<lparr>previewcache := two_cache\<rparr>) two_files
        ''out/.gui_preview.jpg'' [''out/a.png'', ''out/b.JPG''] (1, 10) = (None, self2, fs2)"
    "previewoutput self2 = None"
    by auto
  have r: "\<exists>self'.
      refresh_previews (demo_images\<lparr>previewcache := two_cache\<rparr>) two_files
          ''out/.gui_preview.jpg'' [''out/a.png'', ''out/b.JPG''] 2 (1, 10) =
        (None, self', two_files) \<and>
      previewoutput self' = Some thumb_c \<and>
      images (previewcache self') = Some [thumb_a, thumb_b]"
    using refresh by (simp add: demo_images_def two_cache_def)
  have d: "\<exists>self' fs'.
      display_previews (demo_images\<lparr>previewcache := two_cache\<rparr>) two_files
          ''out/.gui_preview.jpg'' [''out/a.png'', ''out/b.JPG''] (1, 10) =
        (None, self', fs') \<and>
      previewoutput self' = None"
    using display by blast
  show ?thesis
    using zero load fit place exist r d by simp
qed


subsection \<open>The error count of the training previews\<close>

lemma resize_image_errcount:
  "resize_image lib self name dims = Inr self' \<Longrightarrow> errcount self' = errcount self"
  by (auto simp: resize_image_def split: option.splits sum.splits if_splits)















subsection \<open>The result of a background task\<close>

text \<open>
  Claim C10. \<^verbatim>\<open>get_result\<close> on a task whose event is not set returns \<^verbatim>\<open>None\<close>
  and changes nothing; after \<^verbatim>\<open>run\<close> of a task whose target raised an exception
  deriving from \<open>Exception\<close> it raises that exception object with the traceback
  captured; after \<^verbatim>\<open>run\<close> of a task whose target returned, with nothing captured
  or queued before, it returns the value of the target.
\<close>

theorem get_result_outcomes:
  "(\<not> complete task \<longrightarrow> get_result task = (Returned PyNone, task)) \<and>
   (target task = Some (Raises (cls, val, tb)) \<and> isinstance_Exception cls \<longrightarrow>
      fst (run task) = None \<and> complete (snd (run task)) \<and>
      err (snd (run task)) = Some (cls, val, tb) \<and>
      fst (get_result (snd (run task))) = Raised val tb) \<and>
   (target task = Some (Returns retval) \<and> err task = None \<and> queue task = [] \<longrightarrow>
      fst (run task) = None \<and> complete (snd (run task)) \<and>
      fst (get_result (snd (run task))) = Returned retval)"
  by (simp add: get_result_def run_def)

theorem get_result_outcomes_witness:
  "\<not> complete (init_task (Some (Returns (PyObj 5)))) \<and>
   get_result (init_task (Some (Returns (PyObj 5)))) =
     (Returned PyNone, init_task (Some (Returns (PyObj 5)))) \<and>
   target (init_task (Some (Raises (ValueError, 7, 3)))) = Some (Raises (ValueError, 7, 3)) \<and>
   isinstance_Exception ValueError \<and>
   fst (get_result (snd (run (init_task (Some (Raises (ValueError, 7, 3))))))) = Raised 7 3 \<and>
   target (init_task (Some (Returns (PyObj 5)))) = Some (Returns (PyObj 5)) \<and>
   err (init_task (Some (Returns (PyObj 5)))) = None \<and>
   queue (init_task (Some (Returns (PyObj 5)))) = [] \<and>
   fst (get_result (snd (run (init_task (Some (Returns (PyObj 5))))))) = Returned (PyObj 5)"
proof -
  have a: "\<not> complete (init_task (Some (Returns (PyObj 5))))"
    and b: "target (init_task (Some (Raises (ValueError, 7, 3)))) =
              Some (Raises (ValueError, 7, 3))"
    and c: "isinstance_Exception ValueError"
    and d: "target (init_task (Some (Returns (PyObj 5)))) = Some (Returns (PyObj 5))"
      "err (init_task (Some (Returns (PyObj 5)))) = None"
      "queue (init_task (Some (Returns (PyObj 5)))) = []"
    by (simp_all add: init_task_def isinstance_Exception_def)
  show ?thesis
    using get_result_outcomes [of "init_task (Some (Returns (PyObj 5)))" ValueError 7 3 "PyObj 5"]
      get_result_outcomes [of "init_task (Some (Raises (ValueError, 7, 3)))" ValueError 7 3
        "PyObj 5"]
      a b c d
    by simp
qed


end
